theory Spec2Isabelle
  imports Main "HOL-Library.Multiset"
begin

section \<open>Data model of the bot (src/bot.js, class LVMLabsWalletBot)\<close>

text \<open>
  Telegram chat ids and message ids are integers; wallet addresses are strings.
  A JavaScript \<^verbatim>\<open>Map\<close> is an association list in insertion order with one entry per
  key, a JavaScript \<^verbatim>\<open>Set\<close> is a list without repetitions in insertion order:
  \<^verbatim>\<open>forEach\<close> and \<^verbatim>\<open>Array.from\<close> visit both in that order.
\<close>

type_synonym chat_id = int
type_synonym message_id = int
type_synonym address = string

subsection \<open>Map and Set of the JavaScript runtime\<close>

definition Map_has :: "('k \<times> 'v) list \<Rightarrow> 'k \<Rightarrow> bool" where
  "Map_has m k = (map_of m k \<noteq> None)"

definition Map_get :: "('k \<times> 'v) list \<Rightarrow> 'k \<Rightarrow> 'v option" where
  "Map_get m k = map_of m k"

text \<open>\<^verbatim>\<open>Map.prototype.set\<close>: an existing key keeps its place, a new key goes last.\<close>

fun Map_set :: "('k \<times> 'v) list \<Rightarrow> 'k \<Rightarrow> 'v \<Rightarrow> ('k \<times> 'v) list" where
  "Map_set [] k v = [(k, v)]"
| "Map_set ((k', v') # m) k v =
     (if k' = k then (k, v) # m else (k', v') # Map_set m k v)"

definition Set_has :: "'a list \<Rightarrow> 'a \<Rightarrow> bool" where
  "Set_has s a = (a \<in> set s)"

definition Set_add :: "'a list \<Rightarrow> 'a \<Rightarrow> 'a list" where
  "Set_add s a = (if a \<in> set s then s else s @ [a])"

definition Set_delete :: "'a list \<Rightarrow> 'a \<Rightarrow> 'a list" where
  "Set_delete s a = removeAll a s"

subsection \<open>The engine as the bot sees it\<close>

text \<open>
  The bot drives the engine (\<^verbatim>\<open>this.websocket\<close>, file websocket-backend.js) through
  \<^verbatim>\<open>addWallet\<close> and \<^verbatim>\<open>removeWallet\<close>. The state keeps the calls the bot has made,
  oldest first.
\<close>

datatype ws_call = AddWallet address | RemoveWallet address

text \<open>
  Modelled from the spec: the engine's TrackedAddressSet (websocket-backend.js is not
  among the sources). An address is a member from the moment it is passed to
  \<^verbatim>\<open>addWallet\<close> until it is passed to \<^verbatim>\<open>removeWallet\<close>; the set is "mutated only by
  AddressRegistry.add/remove" and does not count who requested an address.
\<close>

fun apply_call :: "ws_call \<Rightarrow> address list \<Rightarrow> address list" where
  "apply_call (AddWallet a) s = Set_add s a"
| "apply_call (RemoveWallet a) s = Set_delete s a"

definition trackedWallets :: "ws_call list \<Rightarrow> address list" where
  "trackedWallets calls = fold apply_call calls []"

subsection \<open>Configuration and state\<close>

text \<open>
  \<^verbatim>\<open>parseInt(process.env.X) || d\<close>: an unset or unparsable variable and the value 0
  give the default, any other integer is taken as it is.
\<close>

definition env_int :: "int option \<Rightarrow> int \<Rightarrow> int" where
  "env_int v d = (case v of None \<Rightarrow> d | Some n \<Rightarrow> if n = 0 then d else n)"

text \<open>
  Besides the two limits, the configuration holds what the bot calls and the repository
  does not define: the engine's \<^verbatim>\<open>validateWalletAddress\<close> and the runtime's rendering of
  a timestamp (\<^verbatim>\<open>new Date(t).toLocaleString('en-US', ...)\<close>). Both are parameters.
\<close>

record config =
  MAX_WALLETS_PER_USER :: int
  INACTIVITY_LIMIT :: int
  validateWalletAddress :: "address \<Rightarrow> bool"
  toLocaleString :: "int \<Rightarrow> string"

definition config_from_env ::
  "int option \<Rightarrow> int option \<Rightarrow> (address \<Rightarrow> bool) \<Rightarrow> (int \<Rightarrow> string) \<Rightarrow> config" where
  "config_from_env max_wallets inactivity validate render =
     \<lparr>MAX_WALLETS_PER_USER = env_int max_wallets 3,
      INACTIVITY_LIMIT = env_int inactivity 300000,
      validateWalletAddress = validate,
      toLocaleString = render\<rparr>"

definition MAX_MESSAGES_PER_USER :: nat where
  "MAX_MESSAGES_PER_USER = 50"

record bot_state =
  userWallets :: "(chat_id \<times> address list) list"
  botMessageIds :: "(chat_id \<times> message_id list) list"
  lastUserActivity :: int
  websocket :: "ws_call list"

definition init_state :: "int \<Rightarrow> bot_state" where
  "init_state now =
     \<lparr>userWallets = [], botMessageIds = [], lastUserActivity = now, websocket = []\<rparr>"

text \<open>The wallet set of a chat; a chat without an entry has none.\<close>

definition wallets_of :: "bot_state \<Rightarrow> chat_id \<Rightarrow> address list" where
  "wallets_of st c = (case Map_get (userWallets st) c of None \<Rightarrow> [] | Some s \<Rightarrow> s)"

definition all_user_wallets :: "bot_state \<Rightarrow> address set" where
  "all_user_wallets st = \<Union> (set ` snd ` set (userWallets st))"

subsection \<open>Outgoing messages\<close>

text \<open>
  The replies are Markdown templates; a reply is modelled by its template and the values
  the template interpolates from the bot's own state. A transaction notification carries
  the text that \<^verbatim>\<open>formatTransactionMessage\<close> builds.
\<close>

datatype message =
    AlreadyTracking address
  | WalletLimitReached int "address list"
  | WalletAdded address nat int
  | InvalidAddress
  | StoppedTracking address nat
  | WalletNotFound
  | NotTrackingAny
  | AutoCleanupAlert int nat
  | TransactionNotification string
  | OtherReply

text \<open>
  How a message leaves the bot: through \<^verbatim>\<open>sendAndTrackMessage\<close> with the returned promise
  dropped (\<open>Tracked\<close>), through \<^verbatim>\<open>sendAndTrackMessage\<close> with \<^verbatim>\<open>.then/.catch\<close> attached
  (\<open>TrackedCaught\<close>), or through \<^verbatim>\<open>bot.sendMessage\<close> with \<^verbatim>\<open>.catch\<close> attached
  (\<open>Direct\<close>).
\<close>

datatype delivery = Tracked | TrackedCaught | Direct

record send =
  to_chat :: chat_id
  body :: message
  via :: delivery

definition updateUserActivity :: "int \<Rightarrow> bot_state \<Rightarrow> bot_state" where
  "updateUserActivity now st = st\<lparr>lastUserActivity := now\<rparr>"

section \<open>Commands that change the tracked wallets\<close>

text \<open>
  The handler of \<^verbatim>\<open>/track <address>\<close> (bot.js, lines 141-215). \<open>walletAddress\<close> is the
  trimmed argument of the command, \<open>now\<close> the value of \<^verbatim>\<open>Date.now()\<close>. The handler
  returns the new state and the messages it hands to Telegram.
\<close>

definition track_handler ::
  "config \<Rightarrow> int \<Rightarrow> chat_id \<Rightarrow> address \<Rightarrow> bot_state \<Rightarrow> bot_state \<times> send list" where
  "track_handler cfg now chatId walletAddress st0 =
     (let st = updateUserActivity now st0 in
      if validateWalletAddress cfg walletAddress then
        let st1 = (if \<not> Map_has (userWallets st) chatId
                   then st\<lparr>userWallets := Map_set (userWallets st) chatId []\<rparr>
                   else st);
            userWalletSet = wallets_of st1 chatId
        in if Set_has userWalletSet walletAddress then
             (st1, [\<lparr>to_chat = chatId, body = AlreadyTracking walletAddress, via = Tracked\<rparr>])
           else if int (length userWalletSet) \<ge> MAX_WALLETS_PER_USER cfg then
             (st1, [\<lparr>to_chat = chatId,
                     body = WalletLimitReached (MAX_WALLETS_PER_USER cfg) userWalletSet,
                     via = Tracked\<rparr>])
           else
             let added = Set_add userWalletSet walletAddress;
                 st2 = st1\<lparr>userWallets := Map_set (userWallets st1) chatId added,
                           websocket := websocket st1 @ [AddWallet walletAddress]\<rparr>;
                 currentCount = length added;
                 remainingSlots = MAX_WALLETS_PER_USER cfg - int currentCount
             in (st2, [\<lparr>to_chat = chatId,
                         body = WalletAdded walletAddress currentCount remainingSlots,
                         via = Tracked\<rparr>])
      else (st, [\<lparr>to_chat = chatId, body = InvalidAddress, via = Tracked\<rparr>]))"

text \<open>
  The handler of \<^verbatim>\<open>/untrack <address>\<close> (bot.js, lines 241-283). The \<^verbatim>\<open>forEach\<close> that
  looks for another user of the wallet is the fold \<open>trackedByOthers\<close>.
\<close>

definition trackedByOthers :: "(chat_id \<times> address list) list \<Rightarrow> chat_id \<Rightarrow> address \<Rightarrow> bool" where
  "trackedByOthers m chatId walletAddress =
     fold (\<lambda>(userId, walletSet) walletStillTrackedByOthers.
             if userId \<noteq> chatId \<and> Set_has walletSet walletAddress then True
             else walletStillTrackedByOthers) m False"

definition untrack_handler ::
  "int \<Rightarrow> chat_id \<Rightarrow> address \<Rightarrow> bot_state \<Rightarrow> bot_state \<times> send list" where
  "untrack_handler now chatId walletAddress st0 =
     (let st = updateUserActivity now st0 in
      if Map_has (userWallets st) chatId then
        let userWalletSet = wallets_of st chatId in
        if Set_has userWalletSet walletAddress then
          let remaining = Set_delete userWalletSet walletAddress;
              st1 = st\<lparr>userWallets := Map_set (userWallets st) chatId remaining\<rparr>;
              st2 = (if \<not> trackedByOthers (userWallets st1) chatId walletAddress
                     then st1\<lparr>websocket := websocket st1 @ [RemoveWallet walletAddress]\<rparr>
                     else st1)
          in (st2, [\<lparr>to_chat = chatId,
                      body = StoppedTracking walletAddress (length remaining),
                      via = Tracked\<rparr>])
        else (st, [\<lparr>to_chat = chatId, body = WalletNotFound, via = Tracked\<rparr>])
      else (st, [\<lparr>to_chat = chatId, body = NotTrackingAny, via = Tracked\<rparr>]))"

subsection \<open>The inactivity monitor\<close>

definition getTotalTrackedWallets :: "bot_state \<Rightarrow> nat" where
  "getTotalTrackedWallets st =
     fold (\<lambda>(chatId, walletSet) total. total + length walletSet) (userWallets st) 0"

text \<open>\<open>allWallets\<close> is the Set that \<^verbatim>\<open>handleInactivityCleanup\<close> fills before it calls the engine.\<close>

definition allWallets :: "bot_state \<Rightarrow> address list" where
  "allWallets st =
     fold (\<lambda>(chatId, walletSet) acc. fold (\<lambda>wallet acc'. Set_add acc' wallet) walletSet acc)
       (userWallets st) []"

definition handleInactivityCleanup :: "config \<Rightarrow> bot_state \<Rightarrow> bot_state \<times> send list" where
  "handleInactivityCleanup cfg st =
     (let alerts =
            concat (map (\<lambda>(chatId, walletSet).
                      if length walletSet > 0
                      then [\<lparr>to_chat = chatId,
                              body = AutoCleanupAlert (INACTIVITY_LIMIT cfg) (length walletSet),
                              via = Direct\<rparr>]
                      else []) (userWallets st));
          removed = map RemoveWallet (allWallets st)
      in (st\<lparr>userWallets := [], websocket := websocket st @ removed\<rparr>, alerts))"

text \<open>One tick of the timer that \<^verbatim>\<open>startInactivityMonitor\<close> installs, at time \<open>now\<close>.\<close>

definition inactivity_check :: "config \<Rightarrow> int \<Rightarrow> bot_state \<Rightarrow> bot_state \<times> send list" where
  "inactivity_check cfg now st =
     (let timeSinceLastActivity = now - lastUserActivity st;
          timeRemaining = max 0 (INACTIVITY_LIMIT cfg - timeSinceLastActivity)
      in if timeRemaining = 0 \<and> getTotalTrackedWallets st > 0
         then handleInactivityCleanup cfg st
         else (st, []))"

section \<open>Sending messages and remembering their ids\<close>

datatype js_error = Error string

text \<open>
  \<^verbatim>\<open>cleanupOldMessageIds\<close> (bot.js, lines 1646-1659): every stored array longer than
  twice the limit loses its oldest entries (\<^verbatim>\<open>splice(0, cleaned)\<close>).
\<close>

definition cleanupOldMessageIds ::
  "(chat_id \<times> message_id list) list \<Rightarrow> (chat_id \<times> message_id list) list" where
  "cleanupOldMessageIds m =
     map (\<lambda>(chatId, messageIds).
            if length messageIds > MAX_MESSAGES_PER_USER * 2
            then (chatId, drop (length messageIds - MAX_MESSAGES_PER_USER) messageIds)
            else (chatId, messageIds)) m"

text \<open>
  \<^verbatim>\<open>sendAndTrackMessage\<close> (bot.js, lines 1520-1547), from the point where the awaited
  \<^verbatim>\<open>bot.sendMessage\<close> settles: \<open>outcome\<close> is the error it rejects with or the id of the
  message Telegram accepted. The result is what the returned promise settles to; a
  rejection is logged and thrown again.
\<close>

definition sendAndTrackMessage ::
  "chat_id \<Rightarrow> js_error + message_id \<Rightarrow> bot_state \<Rightarrow> (js_error + message_id) \<times> bot_state" where
  "sendAndTrackMessage chatId outcome st =
     (case outcome of
        Inl error \<Rightarrow> (Inl error, st)
      | Inr message_id \<Rightarrow>
          let m0 = botMessageIds st;
              m1 = (if \<not> Map_has m0 chatId then Map_set m0 chatId [] else m0);
              messageIds = (case Map_get m1 chatId of None \<Rightarrow> [] | Some ids \<Rightarrow> ids);
              pushed = messageIds @ [message_id];
              kept = (if length pushed > MAX_MESSAGES_PER_USER
                      then drop (length pushed - MAX_MESSAGES_PER_USER) pushed
                      else pushed);
              m2 = Map_set m1 chatId kept;
              m3 = (if length kept mod 10 = 0 then cleanupOldMessageIds m2 else m2)
          in (Inr message_id, st\<lparr>botMessageIds := m3\<rparr>))"

text \<open>The last step of \<^verbatim>\<open>clearBotMessages\<close>: \<^verbatim>\<open>this.botMessageIds.set(chatId, [])\<close>.\<close>

definition clearBotMessages_finish :: "chat_id \<Rightarrow> bot_state \<Rightarrow> bot_state" where
  "clearBotMessages_finish chatId st =
     st\<lparr>botMessageIds := Map_set (botMessageIds st) chatId []\<rparr>"

definition message_ids_of :: "bot_state \<Rightarrow> chat_id \<Rightarrow> message_id list" where
  "message_ids_of st c = (case Map_get (botMessageIds st) c of None \<Rightarrow> [] | Some ids \<Rightarrow> ids)"

text \<open>
  What the log receives and which rejections no handler takes when the send of a message
  settles. A rejection of a \<open>Tracked\<close> send has no handler; of a \<open>TrackedCaught\<close> send
  (the notifications) it reaches the \<^verbatim>\<open>.catch\<close> of \<^verbatim>\<open>notifyUsers\<close>; of a \<open>Direct\<close> send
  the \<^verbatim>\<open>.catch\<close> of \<^verbatim>\<open>handleInactivityCleanup\<close>.
\<close>

datatype log_entry =
    ErrorSendingAndTracking js_error
  | SentToUser chat_id
  | FailedToSendToUser chat_id js_error
  | FailedToNotifyUser chat_id js_error

record settled =
  state_after :: bot_state
  logged :: "log_entry list"
  unhandled :: "js_error list"

definition settle :: "send \<Rightarrow> js_error + message_id \<Rightarrow> bot_state \<Rightarrow> settled" where
  "settle s outcome st =
     (case via s of
        Direct \<Rightarrow>
          \<lparr>state_after = st,
           logged = (case outcome of Inl e \<Rightarrow> [FailedToNotifyUser (to_chat s) e] | Inr _ \<Rightarrow> []),
           unhandled = []\<rparr>
      | Tracked \<Rightarrow>
          (case sendAndTrackMessage (to_chat s) outcome st of
             (Inl e, st') \<Rightarrow>
               \<lparr>state_after = st', logged = [ErrorSendingAndTracking e], unhandled = [e]\<rparr>
           | (Inr _, st') \<Rightarrow> \<lparr>state_after = st', logged = [], unhandled = []\<rparr>)
      | TrackedCaught \<Rightarrow>
          (case sendAndTrackMessage (to_chat s) outcome st of
             (Inl e, st') \<Rightarrow>
               \<lparr>state_after = st',
                logged = [ErrorSendingAndTracking e, FailedToSendToUser (to_chat s) e],
                unhandled = []\<rparr>
           | (Inr _, st') \<Rightarrow>
               \<lparr>state_after = st', logged = [SentToUser (to_chat s)], unhandled = []\<rparr>))"

text \<open>
  The sends a handler has started settle as Telegram's replies arrive. \<open>arrivals\<close> lists
  them in that order, which need not be the order in which they were started; each reply
  carries the outcome Telegram gives for its chat. The lines written to the log and the
  rejections left without a handler are collected as multisets: the order in which the
  lines of different sends reach the log is not part of the model.
\<close>

record all_settled =
  final_state :: bot_state
  all_logged :: "log_entry multiset"
  all_unhandled :: "js_error multiset"

fun settle_all ::
  "(chat_id \<Rightarrow> js_error + message_id) \<Rightarrow> send list \<Rightarrow> bot_state \<Rightarrow> all_settled" where
  "settle_all outcome [] st = \<lparr>final_state = st, all_logged = {#}, all_unhandled = {#}\<rparr>"
| "settle_all outcome (s # arrivals) st =
     (let r1 = settle s (outcome (to_chat s)) st;
          r2 = settle_all outcome arrivals (state_after r1)
      in \<lparr>final_state = final_state r2,
          all_logged = mset (logged r1) + all_logged r2,
          all_unhandled = mset (unhandled r1) + all_unhandled r2\<rparr>)"

section \<open>Transaction notifications\<close>

text \<open>
  The record the engine hands to \<^verbatim>\<open>onTransactionReceived\<close>. A field that is absent
  (\<^verbatim>\<open>undefined\<close>) is \<open>None\<close>. The wallet field is tested with \<^verbatim>\<open>typeof\<close>, so it is a
  JavaScript value: absent, a string, or a value that is not a string, of which only its
  truth value matters (\<^verbatim>\<open>null\<close>, \<^verbatim>\<open>0\<close> and \<^verbatim>\<open>false\<close> are false, an object or another
  number is true).
\<close>

datatype js_value = Absent | Text string | NonString bool

record transaction =
  wallet :: js_value
  token :: "string option"
  buySell :: "string option"
  amount :: "string option"
  signature :: "string option"
  timestamp :: int

text \<open>
  Strings are the byte sequences of their UTF-8 text, while \<^verbatim>\<open>length\<close> and
  \<^verbatim>\<open>substring\<close> of JavaScript count UTF-16 code units. A byte below \<open>0x80\<close> and the first
  byte of a character of two or three bytes stand for one unit, the first byte of a
  character of four bytes for two (a surrogate pair), a continuation byte for none.
\<close>

definition units_of_byte :: "char \<Rightarrow> nat" where
  "units_of_byte b =
     (let n = (of_char b :: nat)
      in if n < 0x80 then 1 else if n < 0xC0 then 0 else if n < 0xF0 then 1 else 2)"

definition utf16_length :: "string \<Rightarrow> nat" where
  "utf16_length s = sum_list (map units_of_byte s)"

definition bytes_of_character :: "char \<Rightarrow> nat" where
  "bytes_of_character b =
     (let n = (of_char b :: nat)
      in if n < 0xC0 then 1 else if n < 0xE0 then 2 else if n < 0xF0 then 3 else 4)"

text \<open>
  \<^verbatim>\<open>s.substring(0, n)\<close>: the first \<open>n\<close> code units of \<open>s\<close>. When the cut falls inside a
  surrogate pair JavaScript keeps the first half alone; as UTF-8 that half is written
  U+FFFD, the way Node encodes it.
\<close>

definition replacement_character :: string where
  "replacement_character = [CHR 0xEF, CHR 0xBF, CHR 0xBD]"

fun substring_0 :: "nat \<Rightarrow> string \<Rightarrow> string" where
  "substring_0 0 s = []"
| "substring_0 (Suc n) [] = []"
| "substring_0 (Suc n) (b # s) =
     (let k = bytes_of_character b in
      if k = 4 then
        (if n = 0 then replacement_character
         else b # take 3 s @ substring_0 (n - 1) (drop 3 s))
      else b # take (k - 1) s @ substring_0 n (drop (k - 1) s))"

text \<open>A value in a condition is true when it is present and not the empty string.\<close>

definition truthy :: "string option \<Rightarrow> bool" where
  "truthy v = (case v of None \<Rightarrow> False | Some s \<Rightarrow> s \<noteq> [])"

text \<open>\<^verbatim>\<open>v || d\<close> for a string or absent \<open>v\<close>.\<close>

definition js_or :: "string option \<Rightarrow> string \<Rightarrow> string" where
  "js_or v d = (case v of None \<Rightarrow> d | Some s \<Rightarrow> if s = [] then d else s)"

text \<open>A value interpolated into a template literal.\<close>

definition interpolate :: "string option \<Rightarrow> string" where
  "interpolate v = (case v of None \<Rightarrow> ''undefined'' | Some s \<Rightarrow> s)"

definition startsWith :: "string \<Rightarrow> string \<Rightarrow> bool" where
  "startsWith s p = (take (length p) s = p)"

fun String_includes :: "string \<Rightarrow> string \<Rightarrow> bool" where
  "String_includes [] p = (p = [])"
| "String_includes (c # s) p = (startsWith (c # s) p \<or> String_includes s p)"

text \<open>\<^verbatim>\<open>replace\<close> with a string pattern replaces the first occurrence only.\<close>

fun replace :: "string \<Rightarrow> string \<Rightarrow> string \<Rightarrow> string" where
  "replace [] p r = (if p = [] then r else [])"
| "replace (c # s) p r =
     (if startsWith (c # s) p then r @ drop (length p) (c # s) else c # replace s p r)"

text \<open>\<^verbatim>\<open>trim\<close>, for the white space of ASCII (tab, line feed, VT, FF, CR, space).\<close>

definition is_space :: "char \<Rightarrow> bool" where
  "is_space c = (c \<in> set [CHR 0x09, CHR 0x0A, CHR 0x0B, CHR 0x0C, CHR 0x0D, CHR 0x20])"

definition trim :: "string \<Rightarrow> string" where
  "trim s = rev (dropWhile is_space (rev (dropWhile is_space s)))"

text \<open>The emoji of the templates, as UTF-8.\<close>

definition bell :: string where "bell = [CHR 0xF0, CHR 0x9F, CHR 0x94, CHR 0x94]"
definition purse :: string where "purse = [CHR 0xF0, CHR 0x9F, CHR 0x91, CHR 0x9B]"
definition memo :: string where "memo = [CHR 0xF0, CHR 0x9F, CHR 0x93, CHR 0x9D]"
definition alarm_clock :: string where "alarm_clock = [CHR 0xE2, CHR 0x8F, CHR 0xB0]"
definition green_circle :: string where "green_circle = [CHR 0xF0, CHR 0x9F, CHR 0x9F, CHR 0xA2]"
definition red_circle :: string where "red_circle = [CHR 0xF0, CHR 0x9F, CHR 0x94, CHR 0xB4]"
definition newline :: string where "newline = [CHR 0x0A]"

text \<open>
  \<^verbatim>\<open>getWalletFromTransaction\<close> (bot.js, lines 810-820). \<open>tracked\<close> is
  \<^verbatim>\<open>Array.from(this.websocket.trackedWallets)\<close>; reading index 0 of an empty array gives
  \<^verbatim>\<open>undefined\<close>.
\<close>

definition getWalletFromTransaction :: "address list \<Rightarrow> transaction \<Rightarrow> string" where
  "getWalletFromTransaction tracked transactionData =
     (let firstWallet = (case tracked of [] \<Rightarrow> None | w # _ \<Rightarrow> Some w);
          fallback = js_or firstWallet ''Unknown Wallet''
      in case wallet transactionData of
           Text w \<Rightarrow> if w \<noteq> [] \<and> utf16_length w > 20 then w else fallback
         | _ \<Rightarrow> fallback)"

definition shorten :: "string \<Rightarrow> string" where
  "shorten walletAddress =
     (if utf16_length walletAddress > 8 then substring_0 8 walletAddress @ ''...''
      else walletAddress)"

text \<open>The template both branches of \<^verbatim>\<open>formatTransactionMessage\<close> fill in.\<close>

definition transaction_text ::
  "string \<Rightarrow> string \<Rightarrow> string \<Rightarrow> string \<Rightarrow> string \<Rightarrow> string \<Rightarrow> string \<Rightarrow> string" where
  "transaction_text shortWallet emoji buySellText amountText tokenText sig time =
     bell @ '' *New Transaction*'' @ newline @ newline @
     purse @ '' Wallet '' @ [CHR 0x60] @ shortWallet @ [CHR 0x60] @ '' '' @ emoji @
       buySellText @ '' '' @ amountText @ '' in '' @ tokenText @ newline @ newline @
     memo @ '' *Signature:* '' @ [CHR 0x60] @ sig @ [CHR 0x60] @ newline @
     alarm_clock @ '' *Time:* '' @ time @ newline @ newline @
     ''[View on Solscan](https://solscan.io/tx/'' @ sig @ '')''"

text \<open>
  \<^verbatim>\<open>formatTransactionMessage\<close> (bot.js, lines 734-807). With the fields typed as above
  nothing in the \<^verbatim>\<open>try\<close> block throws, so its \<^verbatim>\<open>catch\<close> branch is not entered.
\<close>

definition formatTransactionMessage :: "config \<Rightarrow> address list \<Rightarrow> transaction \<Rightarrow> string" where
  "formatTransactionMessage cfg tracked data =
     (let time = toLocaleString cfg (timestamp data);
          walletAddress = js_or (Some (getWalletFromTransaction tracked data)) ''Unknown'';
          shortWallet = shorten walletAddress
      in if truthy (token data) \<and> token data \<noteq> Some ''Unknown'' \<and>
            truthy (amount data) \<and> amount data \<noteq> Some ''N/A SOL'' then
           let tokenSymbol = (if startsWith (the (token data)) ''$'' then the (token data)
                              else ''$'' @ the (token data));
               buySellText = (if buySell data = Some ''BUY'' then ''bought'' else ''sold'');
               amountText = js_or (amount data) ''0 SOL'';
               (emoji, amountText') =
                 (if String_includes amountText green_circle then
                    (green_circle @ '' '', trim (replace amountText (green_circle @ '' '') []))
                  else if String_includes amountText red_circle then
                    (red_circle @ '' '', trim (replace amountText (red_circle @ '' '') []))
                  else
                    (if buySell data = Some ''BUY'' then green_circle @ '' ''
                     else red_circle @ '' '', amountText))
           in transaction_text shortWallet emoji buySellText amountText' tokenSymbol
                (interpolate (signature data)) time
         else
           let tokenDisplay = (if truthy (token data) \<and> token data \<noteq> Some ''Unknown''
                               then the (token data) else ''Unknown Token'');
               amountDisplay = (if truthy (amount data) \<and> amount data \<noteq> Some ''N/A SOL''
                                then the (amount data) else ''0 SOL'');
               buySellText = (if buySell data = Some ''BUY'' then ''bought''
                              else if buySell data = Some ''SELL'' then ''sold''
                              else ''transacted'');
               emoji = (if buySell data = Some ''BUY'' then green_circle @ '' ''
                        else if buySell data = Some ''SELL'' then red_circle @ '' ''
                        else [])
           in transaction_text shortWallet emoji buySellText amountDisplay tokenDisplay
                (interpolate (signature data)) time)"

text \<open>
  \<^verbatim>\<open>notifyUsers\<close> (bot.js, lines 692-731): the messages it hands to
  \<^verbatim>\<open>sendAndTrackMessage\<close>, in the order of the \<^verbatim>\<open>forEach\<close>. It changes no state. A
  wallet that is true but not a string is in no user's set, and the log line of the first
  user skipped, or the summary line when there is no user, calls \<^verbatim>\<open>substring\<close> on it: the
  \<^verbatim>\<open>TypeError\<close> ends in the \<^verbatim>\<open>catch\<close> of \<^verbatim>\<open>notifyUsers\<close> and nothing is sent.
\<close>

definition truthy_value :: "js_value \<Rightarrow> bool" where
  "truthy_value v = (case v of Absent \<Rightarrow> False | Text s \<Rightarrow> s \<noteq> [] | NonString b \<Rightarrow> b)"

definition notifyUsers :: "config \<Rightarrow> bot_state \<Rightarrow> transaction \<Rightarrow> send list" where
  "notifyUsers cfg st transactionData =
     (let walletInTransaction = wallet transactionData in
      if \<not> truthy_value walletInTransaction \<or> walletInTransaction = Text ''Unknown Wallet''
      then []
      else
        (case walletInTransaction of
           Text w \<Rightarrow>
             concat (map (\<lambda>(chatId, walletSet).
                       if Set_has walletSet w then
                         [\<lparr>to_chat = chatId,
                           body = TransactionNotification
                                    (formatTransactionMessage cfg (trackedWallets (websocket st))
                                       transactionData),
                           via = TrackedCaught\<rparr>]
                       else []) (userWallets st))
         | _ \<Rightarrow> []))"

section \<open>The bot as a state machine\<close>

text \<open>
  Everything that runs on the event loop and touches the state: the two commands above,
  any other command or button (it refreshes the activity time and answers), a tick of the
  inactivity timer, a transaction from the engine, the settling of a send, and the last
  step of \<^verbatim>\<open>/clear\<close>.
\<close>

datatype event =
    Track chat_id address int
  | Untrack chat_id address int
  | OtherCommand chat_id int
  | InactivityTick int
  | TransactionReceived transaction
  | SendSettled send "js_error + message_id"
  | ClearFinished chat_id

fun step :: "config \<Rightarrow> event \<Rightarrow> bot_state \<Rightarrow> bot_state \<times> send list" where
  "step cfg (Track chatId walletAddress now) st = track_handler cfg now chatId walletAddress st"
| "step cfg (Untrack chatId walletAddress now) st = untrack_handler now chatId walletAddress st"
| "step cfg (OtherCommand chatId now) st =
     (updateUserActivity now st, [\<lparr>to_chat = chatId, body = OtherReply, via = Tracked\<rparr>])"
| "step cfg (InactivityTick now) st = inactivity_check cfg now st"
| "step cfg (TransactionReceived transactionData) st = (st, notifyUsers cfg st transactionData)"
| "step cfg (SendSettled s outcome) st = (state_after (settle s outcome st), [])"
| "step cfg (ClearFinished chatId) st = (clearBotMessages_finish chatId st, [])"

definition exec :: "config \<Rightarrow> event list \<Rightarrow> bot_state \<Rightarrow> bot_state" where
  "exec cfg evs st = fold (\<lambda>ev s. fst (step cfg ev s)) evs st"

text \<open>What the log holds once a send with \<^verbatim>\<open>.then/.catch\<close> attached has settled.\<close>

definition caught_log :: "(chat_id \<Rightarrow> js_error + message_id) \<Rightarrow> send \<Rightarrow> log_entry list" where
  "caught_log outcome s =
     (case outcome (to_chat s) of
        Inl e \<Rightarrow> [ErrorSendingAndTracking e, FailedToSendToUser (to_chat s) e]
      | Inr _ \<Rightarrow> [SentToUser (to_chat s)])"

text \<open>The last \<open>n\<close> elements of a list, and a run of successful sends to one chat.\<close>

definition last_n :: "nat \<Rightarrow> 'a list \<Rightarrow> 'a list" where
  "last_n n xs = drop (length xs - n) xs"

definition send_all :: "chat_id \<Rightarrow> message_id list \<Rightarrow> bot_state \<Rightarrow> bot_state" where
  "send_all c mids st = fold (\<lambda>mid s. snd (sendAndTrackMessage c (Inr mid) s)) mids st"

section \<open>The credential pool of the engine\<close>















section \<open>Normalisation and dispatch in the engine\<close>

text \<open>
  Modelled from the spec: the provider's push payload (section 4.4 and the wire protocol
  of section 6), "inbound JSON push frames containing balance/instruction deltas and a
  transaction signature". A change names the address it concerns, the token mint, and the
  token and SOL deltas where the payload gives them.
\<close>

record balance_change =
  holder :: address
  mint :: "string option"
  tokenDelta :: "int option"
  solDelta :: "int option"

record payload =
  changes :: "balance_change list"
  payload_signature :: "string option"
  receivedAt :: int

text \<open>Modelled from the spec: the direction of a record, "BUY | SELL | UNKNOWN".\<close>

datatype direction = BUY | SELL | UNKNOWN

text \<open>
  Modelled from the spec: the signature of a record is the provider's transaction id, or
  the fallback marker the normaliser synthesises for a payload without one.
\<close>

datatype record_signature = ProviderId string | FallbackMarker

text \<open>
  Modelled from the spec: TransactionRecord, "address (the tracked address involved),
  direction, tokenSymbol, amountDisplay, signature, observedAt".
\<close>

record transaction_record =
  tr_address :: address
  tr_direction :: direction
  tr_tokenSymbol :: string
  tr_amountDisplay :: string
  tr_signature :: record_signature
  tr_observedAt :: int

text \<open>
  Modelled from the spec: what normalisation takes from outside, the symbol the metadata
  cache resolves a mint to (\<open>None\<close> when resolution fails) and the rendering of an
  amount. Both are parameters.
\<close>

record normalizer_env =
  resolveSymbol :: "string \<Rightarrow> string option"
  displayAmount :: "int \<Rightarrow> string"

text \<open>
  Modelled from the spec: the engine's state for these claims, the TrackedAddressSet and
  the pairs of address and provider signature for which a record has been dispatched.
\<close>

record engine =
  trackedSet :: "address list"
  dispatched_keys :: "(address \<times> string) list"

definition new_engine :: engine where
  "new_engine = \<lparr>trackedSet = [], dispatched_keys = []\<rparr>"

text \<open>
  Modelled from the spec (4.2): \<^verbatim>\<open>add(address) -> bool\<close>, "false if already present",
  and \<^verbatim>\<open>remove(address)\<close>.
\<close>

definition registry_add :: "address \<Rightarrow> engine \<Rightarrow> bool \<times> engine" where
  "registry_add a eng =
     (if Set_has (trackedSet eng) a then (False, eng)
      else (True, eng\<lparr>trackedSet := Set_add (trackedSet eng) a\<rparr>))"

definition registry_remove :: "address \<Rightarrow> engine \<Rightarrow> engine" where
  "registry_remove a eng = eng\<lparr>trackedSet := Set_delete (trackedSet eng) a\<rparr>"

text \<open>
  Modelled from the spec (4.4, step 3): "a token balance increase for that address is BUY;
  a decrease is SELL; if balance-delta sign cannot be determined, direction is UNKNOWN and
  amount falls back to a SOL-denominated net change if available".
\<close>

definition direction_of :: "balance_change \<Rightarrow> direction" where
  "direction_of ch =
     (case tokenDelta ch of
        None \<Rightarrow> UNKNOWN
      | Some d \<Rightarrow> if d > 0 then BUY else if d < 0 then SELL else UNKNOWN)"

definition amount_of :: "normalizer_env \<Rightarrow> balance_change \<Rightarrow> string" where
  "amount_of env ch =
     (case direction_of ch of
        UNKNOWN \<Rightarrow> (case solDelta ch of None \<Rightarrow> ''N/A SOL''
                    | Some s \<Rightarrow> displayAmount env s @ '' SOL'')
      | _ \<Rightarrow> displayAmount env (the (tokenDelta ch)))"

text \<open>
  Modelled from the spec (4.4, step 4): the symbol from the metadata cache, "if resolution
  fails, fall back to Unknown Token rather than failing the whole record".
\<close>

definition symbol_of :: "normalizer_env \<Rightarrow> balance_change \<Rightarrow> string" where
  "symbol_of env ch =
     (case mint ch of
        None \<Rightarrow> ''Unknown Token''
      | Some m \<Rightarrow> (case resolveSymbol env m of None \<Rightarrow> ''Unknown Token'' | Some s \<Rightarrow> s))"

text \<open>
  Modelled from the spec (4.4, step 5): the record for one relevant address of a payload,
  built from the first change of the payload that names the address.
\<close>

definition build_record ::
  "normalizer_env \<Rightarrow> payload \<Rightarrow> address \<Rightarrow> record_signature \<Rightarrow> transaction_record" where
  "build_record env p a sig =
     (let ch = (case filter (\<lambda>ch. holder ch = a) (changes p) of
                  [] \<Rightarrow> \<lparr>holder = a, mint = None, tokenDelta = None, solDelta = None\<rparr>
                | ch # _ \<Rightarrow> ch)
      in \<lparr>tr_address = a,
          tr_direction = direction_of ch,
          tr_tokenSymbol = symbol_of env ch,
          tr_amountDisplay = amount_of env ch,
          tr_signature = sig,
          tr_observedAt = receivedAt p\<rparr>)"

text \<open>
  Modelled from the spec: one record per relevant address, in turn. "Duplicate signatures
  for the same address must be suppressed": an address for which a record with the
  payload's signature has been dispatched gets none; a payload without a signature gets
  the fallback marker and is "never silently" dropped.
\<close>

fun emit ::
  "normalizer_env \<Rightarrow> payload \<Rightarrow> address list \<Rightarrow> (address \<times> string) list \<Rightarrow>
     transaction_record list \<times> (address \<times> string) list" where
  "emit env p [] seen = ([], seen)"
| "emit env p (a # as) seen =
     (case payload_signature p of
        None \<Rightarrow>
          (let (rs, seen') = emit env p as seen
           in (build_record env p a FallbackMarker # rs, seen'))
      | Some s \<Rightarrow>
          if (a, s) \<in> set seen then emit env p as seen
          else (let (rs, seen') = emit env p as ((a, s) # seen)
                in (build_record env p a (ProviderId s) # rs, seen')))"

text \<open>
  Modelled from the spec (4.4, steps 1 and 2, and 4.6): the addresses the payload
  references, intersected with the tracked set; an empty intersection discards the
  payload. The result is the records handed to the dispatcher, which invokes the callback
  once for each.
\<close>

definition normalize ::
  "normalizer_env \<Rightarrow> payload \<Rightarrow> engine \<Rightarrow> transaction_record list \<times> engine" where
  "normalize env p eng =
     (let referenced = remdups (map holder (changes p));
          relevant = filter (\<lambda>a. Set_has (trackedSet eng) a) referenced;
          (records, seen') = emit env p relevant (dispatched_keys eng)
      in (records, eng\<lparr>dispatched_keys := seen'\<rparr>))"

text \<open>
  Modelled from the spec: what reaches the engine, in the order of its single event loop:
  the calls \<^verbatim>\<open>addWallet\<close> and \<^verbatim>\<open>removeWallet\<close> of the control surface and the payloads
  the provider pushes.
\<close>

datatype engine_event =
    AddWalletCall address
  | RemoveWalletCall address
  | ProviderPush payload

fun engine_step ::
  "normalizer_env \<Rightarrow> engine_event \<Rightarrow> engine \<Rightarrow> transaction_record list \<times> engine" where
  "engine_step env (AddWalletCall a) eng = ([], snd (registry_add a eng))"
| "engine_step env (RemoveWalletCall a) eng = ([], registry_remove a eng)"
| "engine_step env (ProviderPush p) eng = normalize env p eng"

text \<open>
  Modelled from the spec: all records dispatched while the engine handles the events, "in
  arrival order".
\<close>

fun engine_run ::
  "normalizer_env \<Rightarrow> engine_event list \<Rightarrow> engine \<Rightarrow> transaction_record list" where
  "engine_run env [] eng = []"
| "engine_run env (ev # evs) eng =
     (let (records, eng') = engine_step env ev eng in records @ engine_run env evs eng')"

text \<open>The records among \<open>rs\<close> dispatched for address \<open>a\<close> with provider signature \<open>s\<close>.\<close>

definition dispatched_for :: "address \<Rightarrow> string \<Rightarrow> transaction_record list \<Rightarrow> transaction_record list" where
  "dispatched_for a s rs = filter (\<lambda>r. tr_address r = a \<and> tr_signature r = ProviderId s) rs"

section \<open>Invariants\<close>

text \<open>
  The user map has one entry per chat, and the engine tracks exactly the wallets that some
  user tracks.
\<close>

definition consistent :: "bot_state \<Rightarrow> bool" where
  "consistent st \<longleftrightarrow>
     distinct (map fst (userWallets st)) \<and>
     set (trackedWallets (websocket st)) = all_user_wallets st"

text \<open>Every wallet in a user's set has passed the validator.\<close>

definition only_valid :: "config \<Rightarrow> bot_state \<Rightarrow> bool" where
  "only_valid cfg st \<longleftrightarrow> all_user_wallets st \<subseteq> {a. validateWalletAddress cfg a}"

text \<open>No chat has more than the limit of message ids stored.\<close>

definition ids_bounded :: "bot_state \<Rightarrow> bool" where
  "ids_bounded st \<longleftrightarrow> (\<forall>c. length (message_ids_of st c) \<le> MAX_MESSAGES_PER_USER)"



text \<open>The address and provider signature of each record that carries a provider signature.\<close>

definition provider_keys :: "transaction_record list \<Rightarrow> (address \<times> string) list" where
  "provider_keys rs =
     concat (map (\<lambda>r. case tr_signature r of ProviderId s \<Rightarrow> [(tr_address r, s)]
                      | FallbackMarker \<Rightarrow> []) rs)"

section \<open>A sample run\<close>

text \<open>
  A configuration with the default limits and a validator that accepts the strings of 32
  to 44 UTF-16 code units, two addresses, and three \<^verbatim>\<open>/track\<close> commands of two users.
\<close>

definition sample_config :: config where
  "sample_config =
     config_from_env None None (\<lambda>a. 32 \<le> utf16_length a \<and> utf16_length a \<le> 44) (\<lambda>t. ''t'')"

definition wallet_A :: address where
  "wallet_A = ''5t2UrDiTe8wJH8SFmWFK6V5u2PZ6wjPrNN57VvGRCC7P''"

definition wallet_B :: address where
  "wallet_B = ''JDd3hy3gQn2V982mi1zqhNqUw1GfV2UL6g76STojCJPN''"

definition sample_events :: "event list" where
  "sample_events = [Track 1 wallet_A 10, Track 2 wallet_A 20, Track 2 wallet_B 30]"

text \<open>A third address, and the configuration with a limit of two wallets.\<close>

definition wallet_C :: address where
  "wallet_C = ''7xKXtg2CW87d97TXJSDpbD5jBkheTqA83TZRuJosgAsU''"

definition small_config :: config where
  "small_config =
     config_from_env (Some 2) None (\<lambda>a. 32 \<le> utf16_length a \<and> utf16_length a \<le> 44) (\<lambda>t. ''t'')"

text \<open>A record for the second address, and Telegram refusing the messages for chat 1.\<close>

definition sample_buy :: transaction where
  "sample_buy = \<lparr>wallet = Text wallet_B, token = Some ''BONK'', buySell = Some ''BUY'',
     amount = Some ''1.5 SOL'', signature = Some ''S1'', timestamp = 1700000000000\<rparr>"

definition failing_for_1 :: "chat_id \<Rightarrow> js_error + message_id" where
  "failing_for_1 c = (if c = 1 then Inl (Error ''ETELEGRAM: 403 Forbidden'') else Inr 77)"

text \<open>
  A record whose wallet has 11 characters, and one whose wallet is not a string.
\<close>

definition short_wallet_buy :: transaction where
  "short_wallet_buy = sample_buy\<lparr>wallet := Text ''shortwallet''\<rparr>"

definition object_wallet_buy :: transaction where
  "object_wallet_buy = sample_buy\<lparr>wallet := NonString True\<rparr>"

text \<open>For the engine: a metadata source that knows one mint, and a payload of one change.\<close>

definition sample_env :: normalizer_env where
  "sample_env = \<lparr>resolveSymbol = (\<lambda>m. if m = ''mintX'' then Some ''X'' else None),
                  displayAmount = (\<lambda>n. ''5'')\<rparr>"

definition sample_payload :: "address \<Rightarrow> string \<Rightarrow> payload" where
  "sample_payload a s =
     \<lparr>changes = [\<lparr>holder = a, mint = Some ''mintX'', tokenDelta = Some 5, solDelta = None\<rparr>],
      payload_signature = Some s, receivedAt = 1\<rparr>"


section \<open>Facts about the runtime containers\<close>

lemma map_of_Map_set: "map_of (Map_set m k v) = (map_of m)(k \<mapsto> v)"
  by (induction m) (auto simp: fun_eq_iff)

lemma keys_Map_set:
  "map fst (Map_set m k v) = (if k \<in> set (map fst m) then map fst m else map fst m @ [k])"
  by (induction m) (auto simp: image_iff, force)

lemma distinct_keys_Map_set:
  "distinct (map fst m) \<Longrightarrow> distinct (map fst (Map_set m k v))"
  by (simp add: keys_Map_set)

lemma in_set_Map_set:
  assumes "distinct (map fst m)"
  shows "(k', v') \<in> set (Map_set m k v) \<longleftrightarrow> (if k' = k then v' = v else (k', v') \<in> set m)"
proof -
  have "(k', v') \<in> set (Map_set m k v) \<longleftrightarrow> map_of (Map_set m k v) k' = Some v'"
    using distinct_keys_Map_set[OF assms] by simp
  also have "\<dots> \<longleftrightarrow> (if k' = k then v' = v else map_of m k' = Some v')"
    by (auto simp: map_of_Map_set)
  also have "\<dots> \<longleftrightarrow> (if k' = k then v' = v else (k', v') \<in> set m)"
    using assms by simp
  finally show ?thesis .
qed

lemma set_Set_add: "set (Set_add s a) = insert a (set s)"
  by (auto simp: Set_add_def)

lemma set_Set_delete: "set (Set_delete s a) = set s - {a}"
  by (simp add: Set_delete_def)

lemma distinct_Set_add: "distinct s \<Longrightarrow> distinct (Set_add s a)"
  by (simp add: Set_add_def)

lemma set_apply_call:
  "set (apply_call c s) = (case c of AddWallet a \<Rightarrow> insert a (set s) | RemoveWallet a \<Rightarrow> set s - {a})"
  by (cases c) (simp_all add: set_Set_add set_Set_delete)

lemma tracked_snoc:
  "trackedWallets (cs @ [c]) = apply_call c (trackedWallets cs)"
  by (simp add: trackedWallets_def)

lemma fold_remove_set:
  "set (fold apply_call (map RemoveWallet ws) s) = set s - set ws"
  by (induction ws arbitrary: s) (auto simp: set_Set_delete)

lemma tracked_removed:
  "set (trackedWallets (cs @ map RemoveWallet ws)) = set (trackedWallets cs) - set ws"
  by (simp add: trackedWallets_def fold_remove_set)

lemma trackedByOthers_fold:
  "fold (\<lambda>(userId, walletSet) b. if userId \<noteq> c \<and> Set_has walletSet a then True else b) m b0
     = (b0 \<or> (\<exists>(u, s) \<in> set m. u \<noteq> c \<and> a \<in> set s))"
  by (induction m arbitrary: b0) (auto simp: Set_has_def)

lemma trackedByOthers_iff:
  "trackedByOthers m c a = (\<exists>(u, s) \<in> set m. u \<noteq> c \<and> a \<in> set s)"
  by (simp add: trackedByOthers_def trackedByOthers_fold)

lemma allWallets_fold_inner:
  "set (fold (\<lambda>wallet acc'. Set_add acc' wallet) ws acc) = set acc \<union> set ws"
  by (induction ws arbitrary: acc) (auto simp: set_Set_add)

lemma distinct_fold_inner:
  "distinct acc \<Longrightarrow> distinct (fold (\<lambda>wallet acc'. Set_add acc' wallet) ws acc)"
  by (induction ws arbitrary: acc) (auto simp: distinct_Set_add)

lemma allWallets_fold_outer:
  "set (fold (\<lambda>(chatId, walletSet) acc. fold (\<lambda>wallet acc'. Set_add acc' wallet) walletSet acc) m acc)
     = set acc \<union> \<Union> (set ` snd ` set m)"
  by (induction m arbitrary: acc) (auto simp: allWallets_fold_inner)

lemma distinct_fold_outer:
  "distinct acc \<Longrightarrow>
   distinct (fold (\<lambda>(chatId, walletSet) acc. fold (\<lambda>wallet acc'. Set_add acc' wallet) walletSet acc) m acc)"
  by (induction m arbitrary: acc) (auto simp: distinct_fold_inner)

lemma set_allWallets: "set (allWallets st) = all_user_wallets st"
  by (simp add: allWallets_def all_user_wallets_def allWallets_fold_outer)

lemma distinct_allWallets: "distinct (allWallets st)"
  by (simp add: allWallets_def distinct_fold_outer)

section \<open>The tracked set and the user map stay in step\<close>

lemma Map_set_twice: "Map_set (Map_set m k v) k w = Map_set m k w"
  by (induction m) auto

lemma wallets_of_Map_set:
  "wallets_of (st\<lparr>userWallets := Map_set (userWallets st) c s\<rparr>) c' =
     (if c' = c then s else wallets_of st c')"
  by (simp add: wallets_of_def Map_get_def map_of_Map_set)

lemma wallets_of_absent: "\<not> Map_has (userWallets st) c \<Longrightarrow> wallets_of st c = []"
  by (simp add: wallets_of_def Map_get_def Map_has_def)

lemma wallets_of_activity [simp]:
  "wallets_of (st\<lparr>lastUserActivity := now\<rparr>) c = wallets_of st c"
  by (simp add: wallets_of_def)

lemma track_handler_state:
  "fst (track_handler cfg now c a st) =
     (if validateWalletAddress cfg a \<and> a \<notin> set (wallets_of st c) \<and>
         int (length (wallets_of st c)) < MAX_WALLETS_PER_USER cfg
      then st\<lparr>lastUserActivity := now,
              userWallets := Map_set (userWallets st) c (wallets_of st c @ [a]),
              websocket := websocket st @ [AddWallet a]\<rparr>
      else if validateWalletAddress cfg a \<and> \<not> Map_has (userWallets st) c
      then st\<lparr>lastUserActivity := now, userWallets := Map_set (userWallets st) c []\<rparr>
      else st\<lparr>lastUserActivity := now\<rparr>)"
proof (cases "Map_has (userWallets st) c")
  case True
  then show ?thesis
    by (simp add: track_handler_def Let_def updateUserActivity_def Set_has_def Set_add_def)
next
  case False
  then have w: "wallets_of st c = []" by (rule wallets_of_absent)
  have w': "wallets_of (st\<lparr>lastUserActivity := now,
        userWallets := Map_set (userWallets st) c []\<rparr>) c = []"
    by (simp add: wallets_of_def Map_get_def map_of_Map_set)
  from False show ?thesis
    by (simp add: track_handler_def Let_def updateUserActivity_def Set_has_def Set_add_def
        w w' Map_set_twice)
qed

lemma untrack_handler_state:
  "fst (untrack_handler now c a st) =
     (if a \<in> set (wallets_of st c) then
        (let m' = Map_set (userWallets st) c (removeAll a (wallets_of st c)) in
         if trackedByOthers m' c a
         then st\<lparr>lastUserActivity := now, userWallets := m'\<rparr>
         else st\<lparr>lastUserActivity := now, userWallets := m',
                 websocket := websocket st @ [RemoveWallet a]\<rparr>)
      else st\<lparr>lastUserActivity := now\<rparr>)"
proof (cases "Map_has (userWallets st) c")
  case True
  then show ?thesis
    by (simp add: untrack_handler_def Let_def updateUserActivity_def Set_has_def Set_delete_def)
next
  case False
  then have "wallets_of st c = []" by (rule wallets_of_absent)
  with False show ?thesis
    by (simp add: untrack_handler_def Let_def updateUserActivity_def)
qed

lemma all_user_wallets_lookup:
  assumes "distinct (map fst (userWallets st))"
  shows "all_user_wallets st = {a. \<exists>c. a \<in> set (wallets_of st c)}"
proof (rule set_eqI)
  fix a
  show "a \<in> all_user_wallets st \<longleftrightarrow> a \<in> {a. \<exists>c. a \<in> set (wallets_of st c)}"
  proof
    assume "a \<in> all_user_wallets st"
    then obtain c s where cs: "(c, s) \<in> set (userWallets st)" and a: "a \<in> set s"
      by (auto simp: all_user_wallets_def)
    from cs assms have "map_of (userWallets st) c = Some s" by simp
    with a have "a \<in> set (wallets_of st c)" by (simp add: wallets_of_def Map_get_def)
    then show "a \<in> {a. \<exists>c. a \<in> set (wallets_of st c)}" by blast
  next
    assume "a \<in> {a. \<exists>c. a \<in> set (wallets_of st c)}"
    then obtain c where c: "a \<in> set (wallets_of st c)" by blast
    then obtain s where s: "map_of (userWallets st) c = Some s" and a: "a \<in> set s"
      by (cases "map_of (userWallets st) c") (auto simp: wallets_of_def Map_get_def)
    from s have "(c, s) \<in> set (userWallets st)" by (rule map_of_SomeD)
    with a show "a \<in> all_user_wallets st" by (force simp: all_user_wallets_def)
  qed
qed

lemma wallets_of_after_set:
  assumes "userWallets st' = Map_set (userWallets st) c s"
  shows "wallets_of st' c' = (if c' = c then s else wallets_of st c')"
  using assms by (simp add: wallets_of_def Map_get_def map_of_Map_set)

lemma consistent_after_set:
  assumes "consistent st" and m: "userWallets st' = Map_set (userWallets st) c s"
    and t: "set (trackedWallets (websocket st')) =
            set s \<union> {a. \<exists>c'. c' \<noteq> c \<and> a \<in> set (wallets_of st c')}"
  shows "consistent st'"
proof -
  from assms have d: "distinct (map fst (userWallets st'))"
    by (simp add: consistent_def distinct_keys_Map_set)
  have "all_user_wallets st' = set s \<union> {a. \<exists>c'. c' \<noteq> c \<and> a \<in> set (wallets_of st c')}"
    unfolding all_user_wallets_lookup[OF d] wallets_of_after_set[OF m] by auto
  with d t show ?thesis by (simp add: consistent_def)
qed

lemma trackedByOthers_lookup:
  assumes "distinct (map fst m)"
  shows "trackedByOthers m c a \<longleftrightarrow> (\<exists>c' s. c' \<noteq> c \<and> map_of m c' = Some s \<and> a \<in> set s)"
proof -
  have "\<And>c s. (c, s) \<in> set m \<longleftrightarrow> map_of m c = Some s"
    using assms by simp
  then show ?thesis
    unfolding trackedByOthers_iff by auto
qed

lemma consistent_activity [simp]:
  "consistent (st\<lparr>lastUserActivity := now\<rparr>) = consistent st"
  by (simp add: consistent_def all_user_wallets_def)

lemma consistent_lookup:
  "consistent st \<Longrightarrow> set (trackedWallets (websocket st)) = {a. \<exists>c. a \<in> set (wallets_of st c)}"
  by (simp add: consistent_def all_user_wallets_lookup)

lemma consistent_track:
  assumes "consistent st"
  shows "consistent (fst (track_handler cfg now c a st))"
proof -
  let ?ws = "wallets_of st c"
  define accepted where "accepted \<longleftrightarrow> validateWalletAddress cfg a \<and> a \<notin> set ?ws \<and>
                  int (length ?ws) < MAX_WALLETS_PER_USER cfg"
  define fresh where "fresh \<longleftrightarrow> validateWalletAddress cfg a \<and> \<not> Map_has (userWallets st) c"
  let ?added = "st\<lparr>lastUserActivity := now,
              userWallets := Map_set (userWallets st) c (?ws @ [a]),
              websocket := websocket st @ [AddWallet a]\<rparr>"
  let ?created = "st\<lparr>lastUserActivity := now, userWallets := Map_set (userWallets st) c []\<rparr>"
  have state: "fst (track_handler cfg now c a st) =
      (if accepted then ?added else if fresh then ?created else st\<lparr>lastUserActivity := now\<rparr>)"
    unfolding accepted_def fresh_def by (rule track_handler_state)
  show ?thesis
  proof (cases accepted)
    case True
    have t: "set (trackedWallets (websocket ?added)) =
          set (?ws @ [a]) \<union> {a. \<exists>c'. c' \<noteq> c \<and> a \<in> set (wallets_of st c')}"
      using consistent_lookup[OF assms] by (auto simp: tracked_snoc set_Set_add)
    have m: "userWallets ?added = Map_set (userWallets st) c (?ws @ [a])" by simp
    have "consistent ?added" by (rule consistent_after_set[OF assms m t])
    with True state show ?thesis by simp
  next
    case False
    show ?thesis
    proof (cases fresh)
      case True
      then have e: "?ws = []" by (simp add: fresh_def wallets_of_absent)
      have t: "set (trackedWallets (websocket ?created)) =
          set [] \<union> {a. \<exists>c'. c' \<noteq> c \<and> a \<in> set (wallets_of st c')}"
        using consistent_lookup[OF assms] e by auto (metis empty_iff empty_set)
      have m: "userWallets ?created = Map_set (userWallets st) c []" by simp
      have "consistent ?created" by (rule consistent_after_set[OF assms m t])
      with \<open>\<not> accepted\<close> True state show ?thesis by simp
    next
      case False
      with \<open>\<not> accepted\<close> state assms show ?thesis by simp
    qed
  qed
qed

lemma trackedByOthers_after_delete:
  assumes "distinct (map fst (userWallets st))"
  shows "trackedByOthers (Map_set (userWallets st) c s) c a \<longleftrightarrow>
         (\<exists>c'. c' \<noteq> c \<and> a \<in> set (wallets_of st c'))"
proof -
  have d: "distinct (map fst (Map_set (userWallets st) c s))"
    using assms by (rule distinct_keys_Map_set)
  have "trackedByOthers (Map_set (userWallets st) c s) c a \<longleftrightarrow>
        (\<exists>c' s'. c' \<noteq> c \<and> map_of (userWallets st) c' = Some s' \<and> a \<in> set s')"
    unfolding trackedByOthers_lookup[OF d] by (auto simp: map_of_Map_set)
  also have "\<dots> \<longleftrightarrow> (\<exists>c'. c' \<noteq> c \<and> a \<in> set (wallets_of st c'))"
    unfolding wallets_of_def Map_get_def
    by (rule iffI; clarsimp split: option.splits; force)
  finally show ?thesis .
qed

lemma consistent_untrack:
  assumes "consistent st"
  shows "consistent (fst (untrack_handler now c a st))"
proof (cases "a \<in> set (wallets_of st c)")
  case False
  with assms show ?thesis by (simp add: untrack_handler_state)
next
  case True
  let ?ws = "wallets_of st c"
  let ?m = "Map_set (userWallets st) c (removeAll a ?ws)"
  let ?others = "{x. \<exists>c'. c' \<noteq> c \<and> x \<in> set (wallets_of st c')}"
  from assms have d: "distinct (map fst (userWallets st))" by (simp add: consistent_def)
  have others: "trackedByOthers ?m c a \<longleftrightarrow> a \<in> ?others"
    using trackedByOthers_after_delete[OF d] by simp
  have all: "set (trackedWallets (websocket st)) = set ?ws \<union> ?others"
    using consistent_lookup[OF assms] by auto
  show ?thesis
  proof (cases "trackedByOthers ?m c a")
    case True
    let ?st' = "st\<lparr>lastUserActivity := now, userWallets := ?m\<rparr>"
    have t: "set (trackedWallets (websocket ?st')) = set (removeAll a ?ws) \<union> ?others"
      using all True others by auto
    have m: "userWallets ?st' = ?m" by simp
    have "consistent ?st'" by (rule consistent_after_set[OF assms m t])
    with True \<open>a \<in> set ?ws\<close> show ?thesis by (simp add: untrack_handler_state)
  next
    case False
    let ?st' = "st\<lparr>lastUserActivity := now, userWallets := ?m,
                 websocket := websocket st @ [RemoveWallet a]\<rparr>"
    have t: "set (trackedWallets (websocket ?st')) = set (removeAll a ?ws) \<union> ?others"
      using all False others by (auto simp: tracked_snoc set_Set_delete)
    have m: "userWallets ?st' = ?m" by simp
    have "consistent ?st'" by (rule consistent_after_set[OF assms m t])
    with False \<open>a \<in> set ?ws\<close> show ?thesis by (simp add: untrack_handler_state)
  qed
qed

lemma handleInactivityCleanup_state:
  "fst (handleInactivityCleanup cfg st) =
     st\<lparr>userWallets := [], websocket := websocket st @ map RemoveWallet (allWallets st)\<rparr>"
  by (simp add: handleInactivityCleanup_def Let_def)

lemma consistent_cleanup:
  assumes "consistent st"
  shows "consistent (fst (handleInactivityCleanup cfg st))"
  using assms
  by (simp add: handleInactivityCleanup_state consistent_def tracked_removed set_allWallets
      all_user_wallets_def)

lemma consistent_inactivity_check:
  "consistent st \<Longrightarrow> consistent (fst (inactivity_check cfg now st))"
  by (simp add: inactivity_check_def Let_def consistent_cleanup)

lemma sendAndTrackMessage_frame:
  "userWallets (snd (sendAndTrackMessage c outcome st)) = userWallets st \<and>
   websocket (snd (sendAndTrackMessage c outcome st)) = websocket st \<and>
   lastUserActivity (snd (sendAndTrackMessage c outcome st)) = lastUserActivity st"
  by (cases outcome) (simp_all add: sendAndTrackMessage_def Let_def)

lemma settle_frame:
  "userWallets (state_after (settle s outcome st)) = userWallets st \<and>
   websocket (state_after (settle s outcome st)) = websocket st \<and>
   lastUserActivity (state_after (settle s outcome st)) = lastUserActivity st"
proof (cases "via s")
  case Direct
  then show ?thesis by (simp add: settle_def)
next
  case Tracked
  obtain r st' where r: "sendAndTrackMessage (to_chat s) outcome st = (r, st')"
    by (cases "sendAndTrackMessage (to_chat s) outcome st")
  with sendAndTrackMessage_frame[of "to_chat s" outcome st] Tracked show ?thesis
    by (cases r) (simp_all add: settle_def)
next
  case TrackedCaught
  obtain r st' where r: "sendAndTrackMessage (to_chat s) outcome st = (r, st')"
    by (cases "sendAndTrackMessage (to_chat s) outcome st")
  with sendAndTrackMessage_frame[of "to_chat s" outcome st] TrackedCaught show ?thesis
    by (cases r) (simp_all add: settle_def)
qed

lemma consistent_frame:
  "userWallets st' = userWallets st \<Longrightarrow> websocket st' = websocket st \<Longrightarrow>
   consistent st' = consistent st"
  by (simp add: consistent_def all_user_wallets_def)

lemma consistent_step:
  assumes "consistent st"
  shows "consistent (fst (step cfg ev st))"
proof (cases ev)
  case (Track c a now)
  with assms show ?thesis by (simp add: consistent_track)
next
  case (Untrack c a now)
  with assms show ?thesis by (simp add: consistent_untrack)
next
  case (OtherCommand c now)
  with assms show ?thesis by (simp add: updateUserActivity_def)
next
  case (InactivityTick now)
  with assms show ?thesis by (simp add: consistent_inactivity_check)
next
  case (TransactionReceived tx)
  with assms show ?thesis by simp
next
  case (SendSettled s outcome)
  with assms settle_frame[of s outcome st]
    consistent_frame[of "state_after (settle s outcome st)" st]
  show ?thesis by simp
next
  case (ClearFinished c)
  with assms consistent_frame[of "clearBotMessages_finish c st" st]
  show ?thesis by (simp add: clearBotMessages_finish_def)
qed

lemma consistent_exec:
  "consistent st \<Longrightarrow> consistent (exec cfg evs st)"
  unfolding exec_def by (induction evs arbitrary: st) (simp_all add: consistent_step)

lemma consistent_init: "consistent (init_state now)"
  by (simp add: consistent_def init_state_def trackedWallets_def all_user_wallets_def)

lemma sample_wallet_lengths [simp]:
  "utf16_length ''5t2UrDiTe8wJH8SFmWFK6V5u2PZ6wjPrNN57VvGRCC7P'' = 44"
  "utf16_length ''JDd3hy3gQn2V982mi1zqhNqUw1GfV2UL6g76STojCJPN'' = 44"
  "utf16_length ''7xKXtg2CW87d97TXJSDpbD5jBkheTqA83TZRuJosgAsU'' = 44"
  by code_simp+

lemma sample_state:
  "exec sample_config sample_events (init_state 0) =
     \<lparr>userWallets = [(1, [wallet_A]), (2, [wallet_A, wallet_B])], botMessageIds = [], lastUserActivity = 30,
      websocket = [AddWallet wallet_A, AddWallet wallet_A, AddWallet wallet_B]\<rparr>"
  by code_simp


section \<open>What the handlers send\<close>

lemma track_handler_sends:
  "snd (track_handler cfg now c a st) =
     [\<lparr>to_chat = c,
       body = (if \<not> validateWalletAddress cfg a then InvalidAddress
               else if a \<in> set (wallets_of st c) then AlreadyTracking a
               else if int (length (wallets_of st c)) \<ge> MAX_WALLETS_PER_USER cfg
               then WalletLimitReached (MAX_WALLETS_PER_USER cfg) (wallets_of st c)
               else WalletAdded a (length (wallets_of st c) + 1)
                      (MAX_WALLETS_PER_USER cfg - int (length (wallets_of st c) + 1))),
       via = Tracked\<rparr>]"
proof (cases "Map_has (userWallets st) c")
  case True
  then show ?thesis
    by (simp add: track_handler_def Let_def updateUserActivity_def Set_has_def Set_add_def)
next
  case False
  then have w: "wallets_of st c = []" by (rule wallets_of_absent)
  have w': "wallets_of (st\<lparr>lastUserActivity := now,
        userWallets := Map_set (userWallets st) c []\<rparr>) c = []"
    by (simp add: wallets_of_def Map_get_def map_of_Map_set)
  from False show ?thesis
    by (simp add: track_handler_def Let_def updateUserActivity_def Set_has_def Set_add_def
        w w')
qed

lemma wallets_of_eq:
  "userWallets st' = userWallets st \<Longrightarrow> wallets_of st' c = wallets_of st c"
  by (simp add: wallets_of_def)

lemma small_state:
  "exec small_config sample_events (init_state 0) =
     \<lparr>userWallets = [(1, [wallet_A]), (2, [wallet_A, wallet_B])], botMessageIds = [],
      lastUserActivity = 30, websocket = [AddWallet wallet_A, AddWallet wallet_A, AddWallet wallet_B]\<rparr>"
  by code_simp

lemma count_list_distinct:
  "distinct xs \<Longrightarrow> count_list xs x = (if x \<in> set xs then 1 else 0)"
  by (induction xs) auto

lemma count_list_RemoveWallet:
  "count_list (map RemoveWallet xs) (RemoveWallet x) = count_list xs x"
  by (induction xs) auto


section \<open>Only validated addresses are tracked; who is notified\<close>

lemma set_Map_set_subset: "set (Map_set m k v) \<subseteq> insert (k, v) (set m)"
  by (induction m) (auto split: if_splits)

lemma all_user_wallets_after_set:
  assumes "userWallets st' = Map_set (userWallets st) c s"
  shows "all_user_wallets st' \<subseteq> set s \<union> all_user_wallets st"
  using set_Map_set_subset[of "userWallets st" c s] assms
  unfolding all_user_wallets_def by fastforce

lemma wallets_of_subset: "set (wallets_of st c) \<subseteq> all_user_wallets st"
proof (cases "map_of (userWallets st) c")
  case None
  then show ?thesis by (simp add: wallets_of_def Map_get_def)
next
  case (Some s)
  then have "(c, s) \<in> set (userWallets st)" by (rule map_of_SomeD)
  then have "set s \<subseteq> all_user_wallets st" unfolding all_user_wallets_def by force
  with Some show ?thesis by (simp add: wallets_of_def Map_get_def)
qed

lemma only_valid_track:
  assumes "only_valid cfg st"
  shows "only_valid cfg (fst (track_handler cfg now c a st))"
proof -
  let ?ws = "wallets_of st c"
  define accepted where "accepted \<longleftrightarrow> validateWalletAddress cfg a \<and> a \<notin> set ?ws \<and>
                  int (length ?ws) < MAX_WALLETS_PER_USER cfg"
  define fresh where "fresh \<longleftrightarrow> validateWalletAddress cfg a \<and> \<not> Map_has (userWallets st) c"
  let ?added = "st\<lparr>lastUserActivity := now,
              userWallets := Map_set (userWallets st) c (?ws @ [a]),
              websocket := websocket st @ [AddWallet a]\<rparr>"
  let ?created = "st\<lparr>lastUserActivity := now, userWallets := Map_set (userWallets st) c []\<rparr>"
  have state: "fst (track_handler cfg now c a st) =
      (if accepted then ?added else if fresh then ?created else st\<lparr>lastUserActivity := now\<rparr>)"
    unfolding accepted_def fresh_def by (rule track_handler_state)
  have a: "all_user_wallets ?added \<subseteq> set (?ws @ [a]) \<union> all_user_wallets st"
    by (rule all_user_wallets_after_set) simp
  have c: "all_user_wallets ?created \<subseteq> set [] \<union> all_user_wallets st"
    by (rule all_user_wallets_after_set) simp
  have n: "all_user_wallets (st\<lparr>lastUserActivity := now\<rparr>) = all_user_wallets st"
    by (simp add: all_user_wallets_def)
  let ?V = "{a. validateWalletAddress cfg a}"
  from assms have u: "all_user_wallets st \<subseteq> ?V" by (simp add: only_valid_def)
  with wallets_of_subset[of st c] have w: "set ?ws \<subseteq> ?V" by blast
  show ?thesis
  proof (cases accepted)
    case True
    then have "a \<in> ?V" by (simp add: accepted_def)
    with a u w have "all_user_wallets ?added \<subseteq> ?V" by auto
    with True show ?thesis unfolding state only_valid_def by simp
  next
    case False
    from c u have "all_user_wallets ?created \<subseteq> ?V" by auto
    with False n u show ?thesis unfolding state only_valid_def by simp
  qed
qed

lemma only_valid_untrack:
  assumes "only_valid cfg st"
  shows "only_valid cfg (fst (untrack_handler now c a st))"
proof -
  let ?m = "Map_set (userWallets st) c (removeAll a (wallets_of st c))"
  have 1: "all_user_wallets (st\<lparr>lastUserActivity := now, userWallets := ?m\<rparr>)
           \<subseteq> set (removeAll a (wallets_of st c)) \<union> all_user_wallets st"
    by (rule all_user_wallets_after_set) simp
  have 2: "all_user_wallets (st\<lparr>lastUserActivity := now, userWallets := ?m,
                 websocket := websocket st @ [RemoveWallet a]\<rparr>)
           \<subseteq> set (removeAll a (wallets_of st c)) \<union> all_user_wallets st"
    by (rule all_user_wallets_after_set) simp
  have n: "all_user_wallets (st\<lparr>lastUserActivity := now\<rparr>) = all_user_wallets st"
    by (simp add: all_user_wallets_def)
  let ?V = "{a. validateWalletAddress cfg a}"
  from assms have u: "all_user_wallets st \<subseteq> ?V" by (simp add: only_valid_def)
  with wallets_of_subset[of st c] have w: "set (removeAll a (wallets_of st c)) \<subseteq> ?V" by auto
  from 1 u w have 1: "all_user_wallets (st\<lparr>lastUserActivity := now, userWallets := ?m\<rparr>) \<subseteq> ?V"
    by blast
  from 2 u w have 2: "all_user_wallets (st\<lparr>lastUserActivity := now, userWallets := ?m,
                 websocket := websocket st @ [RemoveWallet a]\<rparr>) \<subseteq> ?V"
    by blast
  from 1 2 n u show ?thesis
    unfolding untrack_handler_state only_valid_def Let_def by simp
qed

lemma only_valid_frame:
  "userWallets st' = userWallets st \<Longrightarrow> only_valid cfg st \<Longrightarrow> only_valid cfg st'"
  by (simp add: only_valid_def all_user_wallets_def)

lemma only_valid_step:
  assumes "only_valid cfg st"
  shows "only_valid cfg (fst (step cfg ev st))"
proof (cases ev)
  case (Track c a now)
  with assms show ?thesis by (simp add: only_valid_track)
next
  case (Untrack c a now)
  with assms show ?thesis by (simp add: only_valid_untrack)
next
  case (OtherCommand c now)
  with assms show ?thesis
    by (simp add: updateUserActivity_def only_valid_def all_user_wallets_def)
next
  case (InactivityTick now)
  with assms show ?thesis
    by (simp add: inactivity_check_def Let_def handleInactivityCleanup_state only_valid_def
        all_user_wallets_def)
next
  case (TransactionReceived tx)
  with assms show ?thesis by simp
next
  case (SendSettled s outcome)
  with assms settle_frame[of s outcome st] show ?thesis
    by (simp add: only_valid_frame)
next
  case (ClearFinished c)
  with assms show ?thesis
    by (simp add: clearBotMessages_finish_def only_valid_def all_user_wallets_def)
qed

lemma only_valid_exec:
  "only_valid cfg st \<Longrightarrow> only_valid cfg (exec cfg evs st)"
  unfolding exec_def by (induction evs arbitrary: st) (simp_all add: only_valid_step)

lemma only_valid_init: "only_valid cfg (init_state now)"
  by (simp add: only_valid_def init_state_def all_user_wallets_def)

lemma recipients_of_forEach:
  "map to_chat (concat (map (\<lambda>(chatId, walletSet).
              if Set_has walletSet w then [\<lparr>to_chat = chatId, body = f, via = TrackedCaught\<rparr>]
              else []) m)) = map fst (filter (\<lambda>(c, ws). w \<in> set ws) m)"
  by (induction m) (auto simp: Set_has_def)

lemma notifyUsers_recipients_list:
  "map to_chat (notifyUsers cfg st tx) =
     (case wallet tx of
        Text w \<Rightarrow> if w = [] \<or> w = ''Unknown Wallet'' then []
                  else map fst (filter (\<lambda>(c, ws). w \<in> set ws) (userWallets st))
      | _ \<Rightarrow> [])"
  by (simp add: notifyUsers_def Let_def truthy_value_def recipients_of_forEach
      split: js_value.splits)

lemma filter_keys_lookup:
  assumes "distinct (map fst m)"
  shows "set (map fst (filter (\<lambda>(c, ws). w \<in> set ws) m)) =
         {c. \<exists>ws. map_of m c = Some ws \<and> w \<in> set ws}"
  using assms by (auto simp: image_iff) 

lemma distinct_filter_keys:
  "distinct (map fst m) \<Longrightarrow> distinct (map fst (filter P m))"
  by (simp add: distinct_map_filter)

lemma recipients_lookup:
  assumes "distinct (map fst (userWallets st))"
  shows "set (map fst (filter (\<lambda>(c, ws). w \<in> set ws) (userWallets st))) =
         {c. w \<in> set (wallets_of st c)}"
proof -
  have "{c. \<exists>ws. map_of (userWallets st) c = Some ws \<and> w \<in> set ws} = {c. w \<in> set (wallets_of st c)}"
    unfolding wallets_of_def Map_get_def by (auto split: option.splits) metis
  with filter_keys_lookup[OF assms, of w] show ?thesis by simp
qed

lemma notifyUsers_bodies:
  "s \<in> set (notifyUsers cfg st tx) \<Longrightarrow>
     body s = TransactionNotification
                (formatTransactionMessage cfg (trackedWallets (websocket st)) tx) \<and>
     via s = TrackedCaught"
  by (auto simp: notifyUsers_def Let_def split: if_splits js_value.splits)


section \<open>The stored message ids\<close>

lemma length_last_n: "length (last_n n xs) \<le> n"
  by (simp add: last_n_def)

lemma last_n_snoc: "0 < n \<Longrightarrow> last_n n (last_n n xs @ [y]) = last_n n (xs @ [y])"
  by (cases "length xs \<le> n") (simp_all add: last_n_def Suc_diff_le)

lemma map_of_cleanup:
  "map_of (cleanupOldMessageIds m) c =
     map_option (\<lambda>ids. if length ids > MAX_MESSAGES_PER_USER * 2
                        then drop (length ids - MAX_MESSAGES_PER_USER) ids else ids) (map_of m c)"
  by (induction m) (auto simp: cleanupOldMessageIds_def)

lemma message_ids_of_sent:
  "message_ids_of (snd (sendAndTrackMessage c (Inr mid) st)) c' =
     (if c' = c then last_n MAX_MESSAGES_PER_USER (message_ids_of st c @ [mid])
      else if length (last_n MAX_MESSAGES_PER_USER (message_ids_of st c @ [mid])) mod 10 = 0 \<and>
              length (message_ids_of st c') > MAX_MESSAGES_PER_USER * 2
      then drop (length (message_ids_of st c') - MAX_MESSAGES_PER_USER) (message_ids_of st c')
      else message_ids_of st c')"
proof -
  let ?m0 = "botMessageIds st"
  let ?m1 = "if \<not> Map_has ?m0 c then Map_set ?m0 c [] else ?m0"
  have get: "(case Map_get ?m1 c of None \<Rightarrow> [] | Some ids \<Rightarrow> ids) = message_ids_of st c"
    by (auto simp: Map_get_def Map_has_def map_of_Map_set message_ids_of_def)
  have other: "c' \<noteq> c \<Longrightarrow> map_of ?m1 c' = map_of ?m0 c'"
    by (simp add: map_of_Map_set)
  let ?kept = "last_n MAX_MESSAGES_PER_USER (message_ids_of st c @ [mid])"
  have kept: "(if length (message_ids_of st c @ [mid]) > MAX_MESSAGES_PER_USER
               then drop (length (message_ids_of st c @ [mid]) - MAX_MESSAGES_PER_USER)
                      (message_ids_of st c @ [mid])
               else message_ids_of st c @ [mid]) = ?kept"
    by (simp add: last_n_def)
  have "sendAndTrackMessage c (Inr mid) st =
      (Inr mid, st\<lparr>botMessageIds :=
         (if length ?kept mod 10 = 0 then cleanupOldMessageIds (Map_set ?m1 c ?kept)
          else Map_set ?m1 c ?kept)\<rparr>)"
    unfolding sendAndTrackMessage_def Let_def sum.case get kept by (rule refl)
  then have st': "botMessageIds (snd (sendAndTrackMessage c (Inr mid) st)) =
      (if length ?kept mod 10 = 0 then cleanupOldMessageIds (Map_set ?m1 c ?kept)
       else Map_set ?m1 c ?kept)"
    by (simp del: Map_set.simps)
  have small: "\<not> length ?kept > MAX_MESSAGES_PER_USER * 2"
    using length_last_n[of MAX_MESSAGES_PER_USER "message_ids_of st c @ [mid]"] by simp
  show ?thesis
  proof (cases "c' = c")
    case True
    with small show ?thesis
      unfolding message_ids_of_def Map_get_def st'
      by (simp add: map_of_cleanup map_of_Map_set)
  next
    case False
    with other[OF False] show ?thesis
      unfolding message_ids_of_def Map_get_def st'
      by (simp add: map_of_cleanup map_of_Map_set split: option.splits)
  qed
qed

lemma ids_bounded_sent:
  assumes "ids_bounded st"
  shows "ids_bounded (snd (sendAndTrackMessage c outcome st))"
proof (cases outcome)
  case (Inl e)
  with assms show ?thesis by (simp add: sendAndTrackMessage_def)
next
  case (Inr mid)
  from assms have "\<And>c'. length (message_ids_of st c') \<le> MAX_MESSAGES_PER_USER"
    by (simp add: ids_bounded_def)
  then show ?thesis
    unfolding ids_bounded_def Inr message_ids_of_sent
    by (auto simp: length_last_n)
qed

lemma ids_bounded_frame:
  "botMessageIds st' = botMessageIds st \<Longrightarrow> ids_bounded st \<Longrightarrow> ids_bounded st'"
  by (simp add: ids_bounded_def message_ids_of_def)

lemma settle_state:
  "state_after (settle s outcome st) =
     (if via s = Direct then st else snd (sendAndTrackMessage (to_chat s) outcome st))"
proof -
  obtain r st' where r: "sendAndTrackMessage (to_chat s) outcome st = (r, st')"
    by (cases "sendAndTrackMessage (to_chat s) outcome st")
  then show ?thesis
    by (cases "via s"; cases r) (simp_all add: settle_def)
qed

lemma ids_bounded_settle:
  "ids_bounded st \<Longrightarrow> ids_bounded (state_after (settle s outcome st))"
  by (simp add: settle_state ids_bounded_sent)

lemma ids_bounded_clear:
  assumes "ids_bounded st"
  shows "ids_bounded (clearBotMessages_finish c st)"
  using assms
  by (simp add: ids_bounded_def clearBotMessages_finish_def message_ids_of_def Map_get_def
      map_of_Map_set)

lemma track_handler_ids: "botMessageIds (fst (track_handler cfg now c a st)) = botMessageIds st"
  by (simp add: track_handler_state)

lemma untrack_handler_ids: "botMessageIds (fst (untrack_handler now c a st)) = botMessageIds st"
  by (simp add: untrack_handler_state Let_def)

lemma inactivity_check_ids: "botMessageIds (fst (inactivity_check cfg now st)) = botMessageIds st"
  by (simp add: inactivity_check_def Let_def handleInactivityCleanup_state)

lemma ids_bounded_step:
  assumes "ids_bounded st"
  shows "ids_bounded (fst (step cfg ev st))"
proof (cases ev)
  case (Track c a now)
  with assms show ?thesis by (simp add: ids_bounded_frame[OF track_handler_ids])
next
  case (Untrack c a now)
  with assms show ?thesis by (simp add: ids_bounded_frame[OF untrack_handler_ids])
next
  case (OtherCommand c now)
  with assms show ?thesis
    by (simp add: updateUserActivity_def ids_bounded_def message_ids_of_def)
next
  case (InactivityTick now)
  with assms show ?thesis by (simp add: ids_bounded_frame[OF inactivity_check_ids])
next
  case (TransactionReceived tx)
  with assms show ?thesis by simp
next
  case (SendSettled s outcome)
  with assms show ?thesis by (simp add: ids_bounded_settle)
next
  case (ClearFinished c)
  with assms show ?thesis by (simp add: ids_bounded_clear)
qed

lemma ids_bounded_exec: "ids_bounded st \<Longrightarrow> ids_bounded (exec cfg evs st)"
  unfolding exec_def by (induction evs arbitrary: st) (simp_all add: ids_bounded_step)

lemma ids_bounded_init: "ids_bounded (init_state now)"
  by (simp add: ids_bounded_def init_state_def message_ids_of_def Map_get_def)

lemma send_all_ids:
  "length (message_ids_of st c) \<le> MAX_MESSAGES_PER_USER \<Longrightarrow>
   message_ids_of (send_all c mids st) c =
     last_n MAX_MESSAGES_PER_USER (message_ids_of st c @ mids)"
proof (induction mids arbitrary: st)
  case Nil
  then show ?case by (simp add: send_all_def last_n_def)
next
  case (Cons mid mids)
  let ?st = "snd (sendAndTrackMessage c (Inr mid) st)"
  have 1: "message_ids_of ?st c = last_n MAX_MESSAGES_PER_USER (message_ids_of st c @ [mid])"
    by (simp add: message_ids_of_sent)
  then have "length (message_ids_of ?st c) \<le> MAX_MESSAGES_PER_USER"
    by (simp add: length_last_n)
  from Cons.IH[OF this]
  have "message_ids_of (send_all c (mid # mids) st) c =
        last_n MAX_MESSAGES_PER_USER (message_ids_of ?st c @ mids)"
    by (simp add: send_all_def)
  also have "\<dots> = last_n MAX_MESSAGES_PER_USER ((message_ids_of st c @ [mid]) @ mids)"
    unfolding 1 using Cons.prems
    by (cases "length (message_ids_of st c) < MAX_MESSAGES_PER_USER")
      (simp_all add: last_n_def MAX_MESSAGES_PER_USER_def)
  finally show ?case by simp
qed


section \<open>Settling the notifications; the text of a notification\<close>

lemma settle_caught:
  assumes "via s = TrackedCaught"
  shows "unhandled (settle s (outcome (to_chat s)) st) = [] \<and>
         logged (settle s (outcome (to_chat s)) st) = caught_log outcome s"
  using assms
  by (cases "outcome (to_chat s)")
    (simp_all add: settle_def caught_log_def sendAndTrackMessage_def Let_def)

lemma settle_all_caught:
  assumes "list_all (\<lambda>s. via s = TrackedCaught) arrivals"
  shows "all_unhandled (settle_all outcome arrivals st) = {#} \<and>
         all_logged (settle_all outcome arrivals st) =
           mset (concat (map (caught_log outcome) arrivals)) \<and>
         userWallets (final_state (settle_all outcome arrivals st)) = userWallets st \<and>
         websocket (final_state (settle_all outcome arrivals st)) = websocket st \<and>
         lastUserActivity (final_state (settle_all outcome arrivals st)) = lastUserActivity st"
  using assms
proof (induction arrivals arbitrary: st)
  case Nil
  then show ?case by simp
next
  case (Cons s arrivals)
  then have v: "via s = TrackedCaught"
    and rest: "list_all (\<lambda>s. via s = TrackedCaught) arrivals"
    by simp_all
  from Cons.IH[OF rest, of "state_after (settle s (outcome (to_chat s)) st)"]
    settle_caught[OF v, of outcome st] settle_frame[of s "outcome (to_chat s)" st]
  show ?case by (simp add: Let_def)
qed

lemma log_of_same_sends:
  assumes "mset arrivals = mset sends"
  shows "mset (concat (map f arrivals)) = mset (concat (map f sends))"
proof -
  have "\<And>xs. mset (concat (map f xs)) = sum_mset (image_mset (\<lambda>x. mset (f x)) (mset xs))"
    subgoal for xs by (induction xs) simp_all
    done
  with assms show ?thesis by simp
qed

lemma getWalletFromTransaction_fallback:
  assumes "case wallet tx of Text w \<Rightarrow> utf16_length w \<le> 20 | _ \<Rightarrow> True"
  shows "getWalletFromTransaction tracked tx =
           (case tracked of [] \<Rightarrow> ''Unknown Wallet''
            | first # _ \<Rightarrow> if first = [] then ''Unknown Wallet'' else first)"
  using assms
  by (cases "wallet tx"; cases tracked)
    (auto simp: getWalletFromTransaction_def js_or_def Let_def)

lemma getWalletFromTransaction_own:
  assumes "wallet tx = Text w" and "w \<noteq> []" and "20 < utf16_length w"
  shows "getWalletFromTransaction tracked tx = w"
  using assms by (simp add: getWalletFromTransaction_def Let_def)

lemma formatTransactionMessage_shape:
  "\<exists>rest. formatTransactionMessage cfg tracked tx =
     bell @ '' *New Transaction*'' @ newline @ newline @ purse @ '' Wallet '' @ [CHR 0x60] @
     shorten (js_or (Some (getWalletFromTransaction tracked tx)) ''Unknown'') @ [CHR 0x60] @ rest"
  unfolding formatTransactionMessage_def Let_def transaction_text_def
  by (auto split: prod.splits)


lemma notifyUsers_wallet_held:
  assumes "s \<in> set (notifyUsers cfg st tx)"
  shows "\<exists>w. wallet tx = Text w \<and> w \<in> all_user_wallets st"
  using assms
  by (force simp: notifyUsers_def Let_def all_user_wallets_def Set_has_def
      split: if_splits js_value.splits)

lemma notifyUsers_own_wallet:
  assumes floor: "\<And>a. validateWalletAddress cfg a \<Longrightarrow> 20 < utf16_length a"
    and valid: "only_valid cfg st"
    and s: "s \<in> set (notifyUsers cfg st tx)"
  shows "\<exists>w. wallet tx = Text w \<and> getWalletFromTransaction tracked tx = w \<and>
           (\<exists>rest. body s = TransactionNotification
              (bell @ '' *New Transaction*'' @ newline @ newline @ purse @ '' Wallet '' @
               [CHR 0x60] @ shorten w @ [CHR 0x60] @ rest))"
proof -
  from notifyUsers_wallet_held[OF s] obtain w
    where w: "wallet tx = Text w" and held: "w \<in> all_user_wallets st"
    by blast
  from held valid have "validateWalletAddress cfg w" by (auto simp: only_valid_def)
  then have long: "20 < utf16_length w" by (rule floor)
  then have ne: "w \<noteq> []" by (auto simp: utf16_length_def)
  have own: "\<And>tracked. getWalletFromTransaction tracked tx = w"
    using w ne long by (rule getWalletFromTransaction_own)
  from ne have "js_or (Some w) ''Unknown'' = w" by (simp add: js_or_def)
  with formatTransactionMessage_shape[of cfg "trackedWallets (websocket st)" tx]
    own[of "trackedWallets (websocket st)"]
  obtain rest where "formatTransactionMessage cfg (trackedWallets (websocket st)) tx =
      bell @ '' *New Transaction*'' @ newline @ newline @ purse @ '' Wallet '' @
      [CHR 0x60] @ shorten w @ [CHR 0x60] @ rest"
    by auto
  with notifyUsers_bodies[OF s] have "\<exists>rest. body s = TransactionNotification
      (bell @ '' *New Transaction*'' @ newline @ newline @ purse @ '' Wallet '' @
       [CHR 0x60] @ shorten w @ [CHR 0x60] @ rest)"
    by simp
  with w own[of tracked] show ?thesis by simp
qed

lemma notifyUsers_short_wallet:
  assumes floor: "\<And>a. validateWalletAddress cfg a \<Longrightarrow> 20 < utf16_length a"
    and valid: "only_valid cfg st"
    and short: "case wallet tx of Text w \<Rightarrow> utf16_length w \<le> 20 | _ \<Rightarrow> True"
  shows "notifyUsers cfg st tx = []"
proof (rule ccontr)
  assume "notifyUsers cfg st tx \<noteq> []"
  then obtain s where s: "s \<in> set (notifyUsers cfg st tx)" by (cases "notifyUsers cfg st tx") auto
  from notifyUsers_wallet_held[OF s] obtain w
    where w: "wallet tx = Text w" and held: "w \<in> all_user_wallets st"
    by blast
  from held valid have "validateWalletAddress cfg w" by (auto simp: only_valid_def)
  then have "20 < utf16_length w" by (rule floor)
  with short w show False by simp
qed

lemma sample_validator_floor:
  "validateWalletAddress sample_config a \<Longrightarrow> 20 < utf16_length a"
  by (simp add: sample_config_def config_from_env_def)


section \<open>Rotation of the credential pool\<close>







section \<open>Records dispatched by the engine\<close>

lemma provider_keys_simps [simp]:
  "provider_keys [] = []"
  "provider_keys (build_record env p a (ProviderId s) # rs) = (a, s) # provider_keys rs"
  "provider_keys (build_record env p a FallbackMarker # rs) = provider_keys rs"
  "provider_keys (rs @ rs') = provider_keys rs @ provider_keys rs'"
  by (simp_all add: provider_keys_def build_record_def Let_def)

lemma emit_keys:
  "emit env p as seen = (rs, seen') \<Longrightarrow>
     distinct (provider_keys rs) \<and> set (provider_keys rs) \<inter> set seen = {} \<and>
     set seen' = set seen \<union> set (provider_keys rs)"
proof (induction as arbitrary: seen rs seen')
  case Nil
  then show ?case by auto
next
  case (Cons a as)
  show ?case
  proof (cases "payload_signature p")
    case None
    obtain rs0 seen0 where e: "emit env p as seen = (rs0, seen0)"
      by (cases "emit env p as seen")
    with Cons.prems None have "rs = build_record env p a FallbackMarker # rs0" "seen' = seen0"
      by simp_all
    with Cons.IH[OF e] show ?thesis by simp
  next
    case (Some s)
    show ?thesis
    proof (cases "(a, s) \<in> set seen")
      case True
      with Cons.prems Some have "emit env p as seen = (rs, seen')" by simp
      then show ?thesis by (rule Cons.IH)
    next
      case False
      obtain rs0 seen0 where e: "emit env p as ((a, s) # seen) = (rs0, seen0)"
        by (cases "emit env p as ((a, s) # seen)")
      with Cons.prems Some False
      have "rs = build_record env p a (ProviderId s) # rs0" "seen' = seen0"
        by simp_all
      with Cons.IH[OF e] False show ?thesis by auto
    qed
  qed
qed

lemma normalize_keys:
  assumes "normalize env p eng = (rs, eng')"
  shows "distinct (provider_keys rs) \<and>
         set (provider_keys rs) \<inter> set (dispatched_keys eng) = {} \<and>
         set (dispatched_keys eng') = set (dispatched_keys eng) \<union> set (provider_keys rs)"
proof -
  let ?relevant = "filter (\<lambda>a. Set_has (trackedSet eng) a) (remdups (map holder (changes p)))"
  obtain rs0 seen0 where e: "emit env p ?relevant (dispatched_keys eng) = (rs0, seen0)"
    by (cases "emit env p ?relevant (dispatched_keys eng)")
  with assms have "rs = rs0" "dispatched_keys eng' = seen0"
    by (auto simp: normalize_def Let_def)
  with emit_keys[OF e] show ?thesis by simp
qed

lemma engine_step_keys:
  assumes "engine_step env ev eng = (rs, eng')"
  shows "distinct (provider_keys rs) \<and>
         set (provider_keys rs) \<inter> set (dispatched_keys eng) = {} \<and>
         set (dispatched_keys eng') = set (dispatched_keys eng) \<union> set (provider_keys rs)"
proof (cases ev)
  case (AddWalletCall a)
  with assms show ?thesis by (auto simp: registry_add_def split: if_splits)
next
  case (RemoveWalletCall a)
  with assms show ?thesis by (auto simp: registry_remove_def)
next
  case (ProviderPush p)
  with assms show ?thesis by (simp add: normalize_keys)
qed

lemma engine_run_keys:
  "distinct (provider_keys (engine_run env evs eng)) \<and>
   set (provider_keys (engine_run env evs eng)) \<inter> set (dispatched_keys eng) = {}"
proof (induction evs arbitrary: eng)
  case Nil
  then show ?case by simp
next
  case (Cons ev evs)
  obtain rs eng' where s: "engine_step env ev eng = (rs, eng')"
    by (cases "engine_step env ev eng")
  from engine_step_keys[OF s] Cons.IH[of eng'] s show ?case
    by auto
qed

lemma dispatched_for_count:
  "length (dispatched_for a s rs) = count_list (provider_keys rs) (a, s)"
  by (induction rs)
    (auto simp: dispatched_for_def provider_keys_def split: record_signature.splits)


section \<open>The claims\<close>

text \<open>
  C1. In every state the bot reaches from its start, whatever the commands, timer ticks,
  transactions and settled sends were, the set of addresses passed to \<^verbatim>\<open>addWallet\<close> and
  not since passed to \<^verbatim>\<open>removeWallet\<close> is the union of the users' wallet sets. An
  accepted \<^verbatim>\<open>/track\<close> adds the address to the user's set and to the engine; an
  \<^verbatim>\<open>/untrack\<close> of an address the user tracks deletes it from the user's set and calls
  \<^verbatim>\<open>removeWallet\<close> exactly when no other user's set contains it.
\<close>

theorem engine_tracks_union:
  fixes cfg evs t0 now c a now' u b
  defines "st \<equiv> exec cfg evs (init_state t0)"
  defines "tracked \<equiv> fst (track_handler cfg now c a st)"
  defines "untracked \<equiv> fst (untrack_handler now' u b st)"
  shows "set (trackedWallets (websocket st)) = all_user_wallets st \<and>
    (validateWalletAddress cfg a \<and> a \<notin> set (wallets_of st c) \<and>
       int (length (wallets_of st c)) < MAX_WALLETS_PER_USER cfg \<longrightarrow>
         wallets_of tracked c = wallets_of st c @ [a] \<and>
         websocket tracked = websocket st @ [AddWallet a]) \<and>
    (b \<in> set (wallets_of st u) \<longrightarrow>
         wallets_of untracked u = removeAll b (wallets_of st u) \<and>
         websocket untracked =
           (if \<exists>c'. c' \<noteq> u \<and> b \<in> set (wallets_of untracked c') then websocket st
            else websocket st @ [RemoveWallet b]))"
proof -
  have cons: "consistent st"
    unfolding st_def by (rule consistent_exec[OF consistent_init])
  then have d: "distinct (map fst (userWallets st))" by (simp add: consistent_def)
  have inv: "set (trackedWallets (websocket st)) = all_user_wallets st"
    using cons by (simp add: consistent_def)
  have tr: "validateWalletAddress cfg a \<and> a \<notin> set (wallets_of st c) \<and>
       int (length (wallets_of st c)) < MAX_WALLETS_PER_USER cfg \<longrightarrow>
         wallets_of tracked c = wallets_of st c @ [a] \<and>
         websocket tracked = websocket st @ [AddWallet a]"
    unfolding tracked_def by (simp add: track_handler_state wallets_of_def Map_get_def map_of_Map_set)
  have un: "b \<in> set (wallets_of st u) \<longrightarrow>
         wallets_of untracked u = removeAll b (wallets_of st u) \<and>
         websocket untracked =
           (if \<exists>c'. c' \<noteq> u \<and> b \<in> set (wallets_of untracked c') then websocket st
            else websocket st @ [RemoveWallet b])"
  proof
    assume b: "b \<in> set (wallets_of st u)"
    let ?m = "Map_set (userWallets st) u (removeAll b (wallets_of st u))"
    have m: "userWallets untracked = ?m"
      unfolding untracked_def using b by (simp add: untrack_handler_state Let_def)
    have w: "\<And>c'. wallets_of untracked c' =
               (if c' = u then removeAll b (wallets_of st u) else wallets_of st c')"
      by (rule wallets_of_after_set[OF m])
    have o: "trackedByOthers ?m u b \<longleftrightarrow> (\<exists>c'. c' \<noteq> u \<and> b \<in> set (wallets_of untracked c'))"
      unfolding trackedByOthers_after_delete[OF d] using w by auto
    have "websocket untracked =
           (if trackedByOthers ?m u b then websocket st else websocket st @ [RemoveWallet b])"
      unfolding untracked_def using b by (simp add: untrack_handler_state Let_def)
    with o w show "wallets_of untracked u = removeAll b (wallets_of st u) \<and>
         websocket untracked =
           (if \<exists>c'. c' \<noteq> u \<and> b \<in> set (wallets_of untracked c') then websocket st
            else websocket st @ [RemoveWallet b])" by simp
  qed
  from inv tr un show ?thesis by blast
qed

theorem engine_tracks_union_witness:
  fixes st
  defines "st \<equiv> exec sample_config sample_events (init_state 0)"
  shows "validateWalletAddress sample_config wallet_B \<and> wallet_B \<notin> set (wallets_of st 1) \<and>
         int (length (wallets_of st 1)) < MAX_WALLETS_PER_USER sample_config \<and>
         wallet_A \<in> set (wallets_of st 1) \<and>
         set (trackedWallets (websocket st)) = all_user_wallets st \<and>
         wallets_of (fst (track_handler sample_config 40 1 wallet_B st)) 1 = [wallet_A, wallet_B] \<and>
         websocket (fst (track_handler sample_config 40 1 wallet_B st)) = websocket st @ [AddWallet wallet_B] \<and>
         wallets_of (fst (untrack_handler 50 1 wallet_A st)) 1 = [] \<and>
         websocket (fst (untrack_handler 50 1 wallet_A st)) = websocket st"
proof -
  have w1: "wallets_of st 1 = [wallet_A]" and w2: "wallets_of st 2 = [wallet_A, wallet_B]"
    unfolding st_def sample_state by (simp_all add: wallets_of_def Map_get_def)
  have h1: "validateWalletAddress sample_config wallet_B \<and> wallet_B \<notin> set (wallets_of st 1) \<and>
         int (length (wallets_of st 1)) < MAX_WALLETS_PER_USER sample_config"
    unfolding w1 by (simp add: sample_config_def config_from_env_def env_int_def wallet_A_def wallet_B_def)
  have h2: "wallet_A \<in> set (wallets_of st 1)" unfolding w1 by simp
  have other: "\<exists>c'. c' \<noteq> 1 \<and> wallet_A \<in> set (wallets_of (fst (untrack_handler 50 1 wallet_A st)) c')"
  proof -
    have "wallets_of (fst (untrack_handler 50 1 wallet_A (exec sample_config sample_events (init_state 0)))) 2 = [wallet_A, wallet_B]"
      by code_simp
    then show ?thesis unfolding st_def by (intro exI[of _ 2]) simp
  qed
  from engine_tracks_union[where cfg=sample_config and evs=sample_events and ?t0.0=0 and c=1 and a=wallet_B and now=40
      and u=1 and b=wallet_A and now'=50, folded st_def] h1 h2 other w1
  show ?thesis by simp
qed


text \<open>
  C2. The validator rejects a string of the wrong length or with a character outside the
  alphabet, so it rejects the empty string and \<^verbatim>\<open>Unknown Wallet\<close>. Then in every state the
  bot reaches, a transaction record is handed to Telegram once for each user whose wallet
  set contains the record's wallet and for no other user, and for no user at all when the
  wallet field is absent or is \<^verbatim>\<open>Unknown Wallet\<close>. Every message handed over is the
  notification text for that record.
\<close>

theorem notifyUsers_recipients:
  fixes cfg evs t0 tx
  defines "st \<equiv> exec cfg evs (init_state t0)"
  defines "recipients \<equiv> map to_chat (notifyUsers cfg st tx)"
  assumes empty: "\<not> validateWalletAddress cfg []"
    and unknown: "\<not> validateWalletAddress cfg ''Unknown Wallet''"
  shows "distinct recipients \<and>
         set recipients = {c. \<exists>w. wallet tx = Text w \<and> w \<in> set (wallets_of st c)} \<and>
         (wallet tx = Absent \<or> wallet tx = Text ''Unknown Wallet'' \<longrightarrow> recipients = []) \<and>
         list_all (\<lambda>s. body s = TransactionNotification
                            (formatTransactionMessage cfg (trackedWallets (websocket st)) tx))
           (notifyUsers cfg st tx)"
proof -
  have "consistent st" unfolding st_def by (rule consistent_exec[OF consistent_init])
  then have d: "distinct (map fst (userWallets st))" by (simp add: consistent_def)
  have "only_valid cfg st" unfolding st_def by (rule only_valid_exec[OF only_valid_init])
  then have valid: "\<And>c w. w \<in> set (wallets_of st c) \<Longrightarrow> validateWalletAddress cfg w"
    using wallets_of_subset unfolding only_valid_def by blast
  have drop: "\<And>c. [] \<notin> set (wallets_of st c)" "\<And>c. ''Unknown Wallet'' \<notin> set (wallets_of st c)"
    using valid empty unknown by blast+
  have bodies: "list_all (\<lambda>s. body s = TransactionNotification
                            (formatTransactionMessage cfg (trackedWallets (websocket st)) tx))
           (notifyUsers cfg st tx)"
    unfolding list_all_iff using notifyUsers_bodies by blast
  show ?thesis
  proof (cases "wallet tx")
    case Absent
    then have "recipients = []" unfolding recipients_def notifyUsers_recipients_list by simp
    with Absent bodies show ?thesis by simp
  next
    case (NonString b)
    then have "recipients = []" unfolding recipients_def notifyUsers_recipients_list by simp
    with NonString bodies show ?thesis by simp
  next
    case (Text w)
    show ?thesis
    proof (cases "w = [] \<or> w = ''Unknown Wallet''")
      case True
      with Text have "recipients = []"
        unfolding recipients_def notifyUsers_recipients_list by simp
      moreover from True drop have "\<And>c. w \<notin> set (wallets_of st c)" by auto
      ultimately show ?thesis using Text bodies by simp
    next
      case False
      with Text have r: "recipients = map fst (filter (\<lambda>(c, ws). w \<in> set ws) (userWallets st))"
        unfolding recipients_def notifyUsers_recipients_list by simp
      have "distinct recipients" unfolding r using d by (rule distinct_filter_keys)
      moreover have "set recipients = {c. w \<in> set (wallets_of st c)}"
        unfolding r by (rule recipients_lookup[OF d])
      ultimately show ?thesis using Text False bodies by simp
    qed
  qed
qed

theorem notifyUsers_recipients_witness:
  fixes st
  defines "st \<equiv> exec sample_config sample_events (init_state 0)"
  shows "\<not> validateWalletAddress sample_config [] \<and>
         \<not> validateWalletAddress sample_config ''Unknown Wallet'' \<and>
         map to_chat (notifyUsers sample_config st sample_buy) = [2] \<and>
         set (map to_chat (notifyUsers sample_config st sample_buy)) =
           {c. \<exists>w. wallet sample_buy = Text w \<and> w \<in> set (wallets_of st c)}"
proof -
  have e: "\<not> validateWalletAddress sample_config []"
    and u: "\<not> validateWalletAddress sample_config ''Unknown Wallet''"
    by (simp_all add: sample_config_def config_from_env_def utf16_length_def units_of_byte_def)
  have r: "map to_chat (notifyUsers sample_config st sample_buy) = [2]"
    unfolding st_def sample_state notifyUsers_recipients_list
    by (simp add: sample_buy_def wallet_A_def wallet_B_def)
  from notifyUsers_recipients[OF e u, of sample_events 0 sample_buy, folded st_def] e u r
  show ?thesis by simp
qed


text \<open>
  C3. Whatever wallets are added and removed and whatever payloads the provider pushes, in
  whatever order, the engine dispatches at most one record for an address with a given
  provider signature: a later payload with a signature already dispatched for the address
  dispatches none. (The engine is the model written from the specification.)
\<close>

theorem duplicate_signature_suppressed:
  "length (dispatched_for a s (engine_run env evs new_engine)) \<le> 1"
proof -
  have "distinct (provider_keys (engine_run env evs new_engine))"
    using engine_run_keys[of env evs new_engine] by simp
  then have "count_list (provider_keys (engine_run env evs new_engine)) (a, s) \<le> 1"
    by (simp add: count_list_distinct)
  then show ?thesis by (simp add: dispatched_for_count)
qed

theorem duplicate_signature_suppressed_witness:
  "engine_run sample_env
     [AddWalletCall ''W1'', ProviderPush (sample_payload ''W1'' ''S1''),
      ProviderPush (sample_payload ''W1'' ''S1''), ProviderPush (sample_payload ''W2'' ''S2'')]
     new_engine =
     [\<lparr>tr_address = ''W1'', tr_direction = BUY, tr_tokenSymbol = ''X'', tr_amountDisplay = ''5'',
       tr_signature = ProviderId ''S1'', tr_observedAt = 1\<rparr>] \<and>
   length (dispatched_for ''W1'' ''S1'' (engine_run sample_env
     [AddWalletCall ''W1'', ProviderPush (sample_payload ''W1'' ''S1''),
      ProviderPush (sample_payload ''W1'' ''S1''), ProviderPush (sample_payload ''W2'' ''S2'')]
     new_engine)) \<le> 1"
proof -
  have "engine_run sample_env
     [AddWalletCall ''W1'', ProviderPush (sample_payload ''W1'' ''S1''),
      ProviderPush (sample_payload ''W1'' ''S1''), ProviderPush (sample_payload ''W2'' ''S2'')]
     new_engine =
     [\<lparr>tr_address = ''W1'', tr_direction = BUY, tr_tokenSymbol = ''X'', tr_amountDisplay = ''5'',
       tr_signature = ProviderId ''S1'', tr_observedAt = 1\<rparr>]"
    by code_simp
  with duplicate_signature_suppressed[of "''W1''" "''S1''" sample_env
      "[AddWalletCall ''W1'', ProviderPush (sample_payload ''W1'' ''S1''),
        ProviderPush (sample_payload ''W1'' ''S1''), ProviderPush (sample_payload ''W2'' ''S2'')]"]
  show ?thesis by (intro conjI)
qed


text \<open>
  C4. A \<^verbatim>\<open>/track\<close> for an address that is already in the user's wallet set, or issued
  when that set holds \<^verbatim>\<open>MAX_WALLETS_PER_USER\<close> addresses or more, is rejected: every
  user's wallet set is as it was, no call reaches the engine, so its tracked set is as it
  was, and the reply is the invalid-address, the already-tracking or the limit message.
  The limit is 3 when the environment does not set it.
\<close>

theorem track_rejected:
  fixes cfg now c a st
  defines "ws \<equiv> wallets_of st c"
  defines "after \<equiv> fst (track_handler cfg now c a st)"
  shows "(a \<in> set ws \<or> int (length ws) \<ge> MAX_WALLETS_PER_USER cfg \<longrightarrow>
           (\<forall>c'. wallets_of after c' = wallets_of st c') \<and>
           websocket after = websocket st \<and>
           trackedWallets (websocket after) = trackedWallets (websocket st) \<and>
           snd (track_handler cfg now c a st) =
             [\<lparr>to_chat = c,
               body = (if \<not> validateWalletAddress cfg a then InvalidAddress
                       else if a \<in> set ws then AlreadyTracking a
                       else WalletLimitReached (MAX_WALLETS_PER_USER cfg) ws),
               via = Tracked\<rparr>]) \<and>
         MAX_WALLETS_PER_USER (config_from_env None inactivity validate render) = 3"
proof -
  have "MAX_WALLETS_PER_USER (config_from_env None inactivity validate render) = 3"
    by (simp add: config_from_env_def env_int_def)
  moreover have "(\<forall>c'. wallets_of after c' = wallets_of st c') \<and>
           websocket after = websocket st \<and>
           trackedWallets (websocket after) = trackedWallets (websocket st) \<and>
           snd (track_handler cfg now c a st) =
             [\<lparr>to_chat = c,
               body = (if \<not> validateWalletAddress cfg a then InvalidAddress
                       else if a \<in> set ws then AlreadyTracking a
                       else WalletLimitReached (MAX_WALLETS_PER_USER cfg) ws),
               via = Tracked\<rparr>]"
    if rej: "a \<in> set ws \<or> int (length ws) \<ge> MAX_WALLETS_PER_USER cfg"
  proof -
    from rej have no: "\<not> (validateWalletAddress cfg a \<and> a \<notin> set (wallets_of st c) \<and>
         int (length (wallets_of st c)) < MAX_WALLETS_PER_USER cfg)"
      unfolding ws_def by auto
    show ?thesis
    proof (cases "validateWalletAddress cfg a \<and> \<not> Map_has (userWallets st) c")
      case True
      then have e: "wallets_of st c = []" by (simp add: wallets_of_absent)
      from True no have s: "after = st\<lparr>lastUserActivity := now,
           userWallets := Map_set (userWallets st) c []\<rparr>"
        unfolding after_def track_handler_state by auto
      have "\<And>c'. wallets_of after c' = wallets_of st c'"
        unfolding s using e by (simp add: wallets_of_def Map_get_def map_of_Map_set)
      moreover have "websocket after = websocket st" unfolding s by simp
      ultimately show ?thesis using rej
        unfolding track_handler_sends ws_def by auto
    next
      case False
      with no have s: "after = st\<lparr>lastUserActivity := now\<rparr>"
        unfolding after_def track_handler_state by auto
      have "\<And>c'. wallets_of after c' = wallets_of st c'"
        unfolding s by simp
      moreover have "websocket after = websocket st" unfolding s by simp
      ultimately show ?thesis using rej
        unfolding track_handler_sends ws_def by auto
    qed
  qed
  ultimately show ?thesis by blast
qed

theorem track_rejected_witness:
  fixes st st'
  defines "st \<equiv> exec sample_config sample_events (init_state 0)"
  defines "st' \<equiv> exec small_config sample_events (init_state 0)"
  shows "wallet_A \<in> set (wallets_of st 2) \<and>
         (\<forall>c'. wallets_of (fst (track_handler sample_config 40 2 wallet_A st)) c' = wallets_of st c') \<and>
         websocket (fst (track_handler sample_config 40 2 wallet_A st)) = websocket st \<and>
         snd (track_handler sample_config 40 2 wallet_A st) =
           [\<lparr>to_chat = 2, body = AlreadyTracking wallet_A, via = Tracked\<rparr>] \<and>
         int (length (wallets_of st' 2)) \<ge> MAX_WALLETS_PER_USER small_config \<and>
         (\<forall>c'. wallets_of (fst (track_handler small_config 40 2 wallet_C st')) c' = wallets_of st' c') \<and>
         websocket (fst (track_handler small_config 40 2 wallet_C st')) = websocket st' \<and>
         snd (track_handler small_config 40 2 wallet_C st') =
           [\<lparr>to_chat = 2, body = WalletLimitReached 2 [wallet_A, wallet_B], via = Tracked\<rparr>]"
proof -
  have w: "wallets_of st 2 = [wallet_A, wallet_B]"
    unfolding st_def sample_state by (simp add: wallets_of_def Map_get_def)
  have w': "wallets_of st' 2 = [wallet_A, wallet_B]"
    unfolding st'_def small_state by (simp add: wallets_of_def Map_get_def)
  have v: "validateWalletAddress sample_config wallet_A"
    by (simp add: sample_config_def config_from_env_def wallet_A_def)
  have v': "validateWalletAddress small_config wallet_C"
    "MAX_WALLETS_PER_USER small_config = 2" "wallet_C \<notin> set [wallet_A, wallet_B]"
    by (simp_all add: small_config_def config_from_env_def env_int_def
        wallet_A_def wallet_B_def wallet_C_def)
  from track_rejected[where cfg=sample_config and now=40 and c=2 and a=wallet_A and st=st]
    track_rejected[where cfg=small_config and now=40 and c=2 and a=wallet_C and st=st']
    w w' v v'
  show ?thesis by simp
qed

text \<open>
  C5. For an address that \<^verbatim>\<open>validateWalletAddress\<close> rejects, \<^verbatim>\<open>/track\<close> leaves the wallet
  set of the user, and the whole user map, as it was, makes no call to the engine, so
  \<^verbatim>\<open>addWallet\<close> is not called, and hands Telegram one message for the user before it
  returns, the invalid-address message. The state it returns is the state it was given
  with the activity time refreshed on entry. When Telegram has answered that send,
  whatever the answer, the user map and the calls made to the engine are still as they
  were.
\<close>

theorem track_invalid_address:
  fixes cfg now c a st answer
  defines "reply \<equiv> \<lparr>to_chat = c, body = InvalidAddress, via = Tracked\<rparr>"
  defines "returned \<equiv> fst (track_handler cfg now c a st)"
  defines "answered \<equiv> state_after (settle reply answer returned)"
  shows "\<not> validateWalletAddress cfg a \<longrightarrow>
           wallets_of returned c = wallets_of st c \<and>
           userWallets returned = userWallets st \<and>
           websocket returned = websocket st \<and>
           trackedWallets (websocket returned) = trackedWallets (websocket st) \<and>
           returned = st\<lparr>lastUserActivity := now\<rparr> \<and>
           snd (track_handler cfg now c a st) = [reply] \<and>
           wallets_of answered c = wallets_of st c \<and>
           userWallets answered = userWallets st \<and>
           websocket answered = websocket st"
proof
  assume rejected: "\<not> validateWalletAddress cfg a"
  then have r: "returned = st\<lparr>lastUserActivity := now\<rparr>"
    unfolding returned_def by (simp add: track_handler_state)
  from rejected have s: "snd (track_handler cfg now c a st) = [reply]"
    unfolding reply_def by (simp add: track_handler_sends)
  from settle_frame[of reply answer returned]
  have f: "userWallets answered = userWallets returned" "websocket answered = websocket returned"
    unfolding answered_def by simp_all
  from r s f show "wallets_of returned c = wallets_of st c \<and>
           userWallets returned = userWallets st \<and>
           websocket returned = websocket st \<and>
           trackedWallets (websocket returned) = trackedWallets (websocket st) \<and>
           returned = st\<lparr>lastUserActivity := now\<rparr> \<and>
           snd (track_handler cfg now c a st) = [reply] \<and>
           wallets_of answered c = wallets_of st c \<and>
           userWallets answered = userWallets st \<and>
           websocket answered = websocket st"
    by (simp add: wallets_of_def)
qed

theorem track_invalid_address_witness:
  fixes st returned
  defines "st \<equiv> exec sample_config sample_events (init_state 0)"
  defines "returned \<equiv> fst (track_handler sample_config 40 1 ''abc'' st)"
  shows "\<not> validateWalletAddress sample_config ''abc'' \<and>
   userWallets returned = [(1, [wallet_A]), (2, [wallet_A, wallet_B])] \<and>
   websocket returned = [AddWallet wallet_A, AddWallet wallet_A, AddWallet wallet_B] \<and>
   snd (track_handler sample_config 40 1 ''abc'' st) =
     [\<lparr>to_chat = 1, body = InvalidAddress, via = Tracked\<rparr>] \<and>
   userWallets (state_after (settle \<lparr>to_chat = 1, body = InvalidAddress, via = Tracked\<rparr>
      (Inr 1001) returned)) = [(1, [wallet_A]), (2, [wallet_A, wallet_B])] \<and>
   websocket (state_after (settle \<lparr>to_chat = 1, body = InvalidAddress, via = Tracked\<rparr>
      (Inr 1001) returned)) = [AddWallet wallet_A, AddWallet wallet_A, AddWallet wallet_B] \<and>
   botMessageIds (state_after (settle \<lparr>to_chat = 1, body = InvalidAddress, via = Tracked\<rparr>
      (Inr 1001) returned)) = [(1, [1001])]"
proof -
  have v: "\<not> validateWalletAddress sample_config ''abc''"
    by (simp add: sample_config_def config_from_env_def utf16_length_def units_of_byte_def)
  have st: "userWallets st = [(1, [wallet_A]), (2, [wallet_A, wallet_B])]"
    "websocket st = [AddWallet wallet_A, AddWallet wallet_A, AddWallet wallet_B]"
    unfolding st_def by (simp_all add: sample_state)
  have ids: "botMessageIds (state_after (settle \<lparr>to_chat = 1, body = InvalidAddress, via = Tracked\<rparr>
      (Inr 1001) returned)) = [(1, [1001])]"
    unfolding returned_def st_def by code_simp
  from track_invalid_address[of sample_config "''abc''" 40 1 st "Inr 1001", folded returned_def] v
  have t: "userWallets returned = userWallets st" "websocket returned = websocket st"
    "snd (track_handler sample_config 40 1 ''abc'' st) =
       [\<lparr>to_chat = 1, body = InvalidAddress, via = Tracked\<rparr>]"
    "userWallets (state_after (settle \<lparr>to_chat = 1, body = InvalidAddress, via = Tracked\<rparr>
       (Inr 1001) returned)) = userWallets st"
    "websocket (state_after (settle \<lparr>to_chat = 1, body = InvalidAddress, via = Tracked\<rparr>
       (Inr 1001) returned)) = websocket st"
    by blast+
  from v ids show ?thesis unfolding t st by simp
qed


text \<open>
  C6. A tick of the inactivity timer that finds the limit elapsed and at least one wallet
  tracked runs the full reset. After it the user map is empty, and the calls it made to
  the engine are one \<^verbatim>\<open>removeWallet\<close> for each address that some user tracked and
  nothing else.
\<close>

theorem inactivity_reset:
  fixes cfg now st
  defines "after \<equiv> fst (inactivity_check cfg now st)"
  shows "now - lastUserActivity st \<ge> INACTIVITY_LIMIT cfg \<and> getTotalTrackedWallets st > 0 \<longrightarrow>
     inactivity_check cfg now st = handleInactivityCleanup cfg st \<and>
     userWallets after = [] \<and>
     websocket after = websocket st @ map RemoveWallet (allWallets st) \<and>
     (\<forall>w. count_list (map RemoveWallet (allWallets st)) (RemoveWallet w) =
           (if w \<in> all_user_wallets st then 1 else 0)) \<and>
     (\<forall>w. count_list (map RemoveWallet (allWallets st)) (AddWallet w) = 0)"
proof
  assume h: "now - lastUserActivity st \<ge> INACTIVITY_LIMIT cfg \<and> getTotalTrackedWallets st > 0"
  then have run: "inactivity_check cfg now st = handleInactivityCleanup cfg st"
    by (simp add: inactivity_check_def Let_def max_def)
  have c: "\<And>w. count_list (map RemoveWallet (allWallets st)) (RemoveWallet w) =
           (if w \<in> all_user_wallets st then 1 else 0)"
    by (simp add: count_list_RemoveWallet count_list_distinct distinct_allWallets set_allWallets)
  have n: "\<And>w. count_list (map RemoveWallet (allWallets st)) (AddWallet w) = 0"
    by (auto simp: count_list_0_iff)
  from run c n show "inactivity_check cfg now st = handleInactivityCleanup cfg st \<and>
     userWallets after = [] \<and>
     websocket after = websocket st @ map RemoveWallet (allWallets st) \<and>
     (\<forall>w. count_list (map RemoveWallet (allWallets st)) (RemoveWallet w) =
           (if w \<in> all_user_wallets st then 1 else 0)) \<and>
     (\<forall>w. count_list (map RemoveWallet (allWallets st)) (AddWallet w) = 0)"
    unfolding after_def by (simp add: handleInactivityCleanup_state)
qed

theorem inactivity_reset_witness:
  fixes st
  defines "st \<equiv> exec sample_config sample_events (init_state 0)"
  shows "300030 - lastUserActivity st \<ge> INACTIVITY_LIMIT sample_config \<and>
         getTotalTrackedWallets st > 0 \<and>
         userWallets (fst (inactivity_check sample_config 300030 st)) = [] \<and>
         websocket (fst (inactivity_check sample_config 300030 st)) =
           websocket st @ [RemoveWallet wallet_A, RemoveWallet wallet_B]"
proof -
  have a: "allWallets st = [wallet_A, wallet_B]"
    unfolding st_def sample_state
    by (simp add: allWallets_def Set_add_def wallet_A_def wallet_B_def)
  have h: "300030 - lastUserActivity st \<ge> INACTIVITY_LIMIT sample_config \<and>
         getTotalTrackedWallets st > 0"
    unfolding st_def sample_state
    by (simp add: getTotalTrackedWallets_def sample_config_def config_from_env_def env_int_def)
  from inactivity_reset[where cfg=sample_config and now=300030 and st=st] h
  have "userWallets (fst (inactivity_check sample_config 300030 st)) = [] \<and>
        websocket (fst (inactivity_check sample_config 300030 st)) =
          websocket st @ map RemoveWallet (allWallets st)"
    by blast
  with h a show ?thesis by simp
qed


text \<open>
  C7. \<^verbatim>\<open>notifyUsers\<close> starts every send before any reply has arrived. In whatever order
  Telegram's replies arrive, and whatever they are, a rejected send included: no rejection
  is left without a handler, so none leaves \<^verbatim>\<open>notifyUsers\<close>; the log holds, for every user
  the record was sent to, either the success line or the two error lines of that user's
  send, so a failed send stops no other; and the user map and the calls made to the
  engine, hence its tracked set, are as before.
\<close>

theorem notification_failure_contained:
  fixes cfg st tx outcome arrivals
  defines "sends \<equiv> notifyUsers cfg st tx"
  defines "r \<equiv> settle_all outcome arrivals st"
  assumes same: "mset arrivals = mset sends"
  shows "all_unhandled r = {#} \<and>
         all_logged r = mset (concat (map (caught_log outcome) sends)) \<and>
         userWallets (final_state r) = userWallets st \<and>
         websocket (final_state r) = websocket st \<and>
         trackedWallets (websocket (final_state r)) = trackedWallets (websocket st)"
proof -
  have "set arrivals = set sends" using same by (rule mset_eq_setD)
  then have "list_all (\<lambda>s. via s = TrackedCaught) arrivals"
    unfolding sends_def list_all_iff using notifyUsers_bodies by blast
  from settle_all_caught[OF this, of outcome st] log_of_same_sends[OF same, of "caught_log outcome"]
  show ?thesis
    unfolding r_def by simp
qed

theorem notification_failure_contained_witness:
  fixes sends r
  defines "sends \<equiv> notifyUsers sample_config (exec sample_config sample_events (init_state 0))
        (sample_buy\<lparr>wallet := Text wallet_A\<rparr>)"
  defines "r \<equiv> settle_all failing_for_1 (rev sends)
     (exec sample_config sample_events (init_state 0))"
  shows "map to_chat sends = [1, 2] \<and>
     map to_chat (rev sends) = [2, 1] \<and>
     all_unhandled r = {#} \<and>
     all_logged r = {#SentToUser 2,
                     ErrorSendingAndTracking (Error ''ETELEGRAM: 403 Forbidden''),
                     FailedToSendToUser 1 (Error ''ETELEGRAM: 403 Forbidden'')#} \<and>
     message_ids_of (final_state r) 2 = [77] \<and>
     userWallets (final_state r) = [(1, [wallet_A]), (2, [wallet_A, wallet_B])] \<and>
     websocket (final_state r) = [AddWallet wallet_A, AddWallet wallet_A, AddWallet wallet_B]"
proof -
  have c: "map to_chat sends = [1, 2]"
    unfolding sends_def sample_state notifyUsers_recipients_list
    by (simp add: sample_buy_def wallet_A_def wallet_B_def)
  have l: "concat (map (caught_log failing_for_1) sends) =
      [ErrorSendingAndTracking (Error ''ETELEGRAM: 403 Forbidden''),
       FailedToSendToUser 1 (Error ''ETELEGRAM: 403 Forbidden''),
       SentToUser 2]"
    unfolding sends_def by code_simp
  have m: "message_ids_of (final_state r) 2 = [77]"
    unfolding r_def sends_def by code_simp
  have p: "mset (rev sends) = mset sends" by simp
  from notification_failure_contained[where cfg=sample_config
      and st="exec sample_config sample_events (init_state 0)"
      and tx="sample_buy\<lparr>wallet := Text wallet_A\<rparr>" and outcome=failing_for_1
      and arrivals="rev sends", folded sends_def, OF p, folded r_def]
    c l m
  show ?thesis by (simp add: sample_state rev_map[symmetric])
qed





text \<open>
  C9. When a call of \<^verbatim>\<open>sendAndTrackMessage\<close> for a chat completes with a sent message, the
  ids stored for the chat are the last 50 of the ids stored before followed by the new id,
  so at most 50 and the oldest dropped first; a failed send changes nothing. In every state
  the bot reaches no chat has more than 50 ids stored, and after any run of sends to a chat
  the ids stored for it are the last 50 of what was stored followed by the ids sent.
\<close>

theorem message_ids_bounded:
  "length (message_ids_of (snd (sendAndTrackMessage c (Inr mid) st)) c) \<le> MAX_MESSAGES_PER_USER \<and>
   message_ids_of (snd (sendAndTrackMessage c (Inr mid) st)) c =
     last_n MAX_MESSAGES_PER_USER (message_ids_of st c @ [mid]) \<and>
   snd (sendAndTrackMessage c (Inl e) st) = st \<and>
   (\<forall>c'. length (message_ids_of (exec cfg evs (init_state t0)) c') \<le> MAX_MESSAGES_PER_USER) \<and>
   message_ids_of (send_all c mids (exec cfg evs (init_state t0))) c =
     last_n MAX_MESSAGES_PER_USER (message_ids_of (exec cfg evs (init_state t0)) c @ mids) \<and>
   MAX_MESSAGES_PER_USER = 50"
proof -
  have b: "ids_bounded (exec cfg evs (init_state t0))"
    by (rule ids_bounded_exec[OF ids_bounded_init])
  then have all: "\<forall>c'. length (message_ids_of (exec cfg evs (init_state t0)) c') \<le> MAX_MESSAGES_PER_USER"
    by (simp add: ids_bounded_def)
  then have run: "message_ids_of (send_all c mids (exec cfg evs (init_state t0))) c =
     last_n MAX_MESSAGES_PER_USER (message_ids_of (exec cfg evs (init_state t0)) c @ mids)"
    by (intro send_all_ids) simp
  have kept: "message_ids_of (snd (sendAndTrackMessage c (Inr mid) st)) c =
     last_n MAX_MESSAGES_PER_USER (message_ids_of st c @ [mid])"
    by (simp add: message_ids_of_sent)
  then have len: "length (message_ids_of (snd (sendAndTrackMessage c (Inr mid) st)) c)
      \<le> MAX_MESSAGES_PER_USER"
    by (simp add: length_last_n)
  have failed: "snd (sendAndTrackMessage c (Inl e) st) = st"
    by (simp add: sendAndTrackMessage_def)
  have fifty: "MAX_MESSAGES_PER_USER = 50"
    by (simp add: MAX_MESSAGES_PER_USER_def)
  from len kept failed all run fifty show ?thesis by (intro conjI)
qed

theorem message_ids_bounded_witness:
  "message_ids_of (send_all 7 (map int [1..<61]) (exec sample_config [] (init_state 0))) 7 =
     map int [11..<61] \<and>
   length (message_ids_of (send_all 7 (map int [1..<61]) (exec sample_config [] (init_state 0))) 7)
     = 50"
proof -
  have e: "message_ids_of (exec sample_config [] (init_state 0)) 7 = []"
    by (simp add: exec_def init_state_def message_ids_of_def Map_get_def)
  have l: "last_n MAX_MESSAGES_PER_USER ([] @ map int [1..<61]) = map int [11..<61]"
    by code_simp
  have n: "length (map int [11..<61]) = 50"
    by simp
  from message_ids_bounded[where c=7 and mids="map int [1..<61]" and cfg=sample_config
        and evs="[]" and ?t0.0=0, THEN conjunct2, THEN conjunct2, THEN conjunct2,
        THEN conjunct2, THEN conjunct1]
  have "message_ids_of (send_all 7 (map int [1..<61]) (exec sample_config [] (init_state 0))) 7 =
     last_n MAX_MESSAGES_PER_USER
       (message_ids_of (exec sample_config [] (init_state 0)) 7 @ map int [1..<61])" .
  then have "message_ids_of (send_all 7 (map int [1..<61]) (exec sample_config [] (init_state 0))) 7 =
     map int [11..<61]"
    unfolding e l .
  with n show ?thesis by (simp only:)
qed


text \<open>
  C10. As stated the claim fails in what it concludes. \<^verbatim>\<open>notifyUsers\<close>, the only caller of
  the formatter, formats a record only for a user whose wallet set contains the record's
  wallet field, and a wallet set holds validated addresses only. With the validator of the
  sample configuration, which accepts the strings of 32 to 44 UTF-16 code units, there
  are no commands and no record for which a message handed to Telegram names a wallet
  other than the record's own.
\<close>

theorem notification_names_other_wallet_counterexample:
  "\<not> (\<exists>evs t0 tx s.
        s \<in> set (notifyUsers sample_config (exec sample_config evs (init_state t0)) tx) \<and>
        \<not> (\<exists>w rest. wallet tx = Text w \<and>
              getWalletFromTransaction
                (trackedWallets (websocket (exec sample_config evs (init_state t0)))) tx = w \<and>
              body s = TransactionNotification
                (bell @ '' *New Transaction*'' @ newline @ newline @ purse @ '' Wallet '' @
                 [CHR 0x60] @ shorten w @ [CHR 0x60] @ rest)))"
proof -
  have "only_valid sample_config (exec sample_config evs (init_state t0))" for evs t0
    by (rule only_valid_exec[OF only_valid_init])
  from notifyUsers_own_wallet[OF sample_validator_floor this]
  show ?thesis by blast
qed

text \<open>
  C10, amended. The formatter, given a record whose wallet field is not a string of more
  than 20 UTF-16 code units, names the first wallet the engine tracks, or
  \<^verbatim>\<open>Unknown Wallet\<close> when the engine tracks none or that wallet is the empty string,
  shortened to 8 code units after the word Wallet. But when every address the validator
  accepts is longer than 20 code units, then in every state the bot reaches
  \<^verbatim>\<open>notifyUsers\<close> sends nothing for such a record, and every message it does send for a
  record names that record's own wallet, which the user it is sent to tracks.
\<close>

theorem notification_names_first_tracked_wallet:
  fixes cfg evs t0 tx tracked
  defines "st \<equiv> exec cfg evs (init_state t0)"
  defines "first_tracked \<equiv>
     (case tracked of [] \<Rightarrow> ''Unknown Wallet''
      | first # _ \<Rightarrow> if first = [] then ''Unknown Wallet'' else first)"
  assumes floor: "\<And>a. validateWalletAddress cfg a \<Longrightarrow> 20 < utf16_length a"
  shows "((case wallet tx of Text w \<Rightarrow> utf16_length w \<le> 20 | _ \<Rightarrow> True) \<longrightarrow>
            getWalletFromTransaction tracked tx = first_tracked \<and>
            (\<exists>rest. formatTransactionMessage cfg tracked tx =
               bell @ '' *New Transaction*'' @ newline @ newline @ purse @ '' Wallet '' @
               [CHR 0x60] @ shorten first_tracked @ [CHR 0x60] @ rest) \<and>
            notifyUsers cfg st tx = []) \<and>
         (\<forall>s \<in> set (notifyUsers cfg st tx).
            \<exists>w rest. wallet tx = Text w \<and> w \<in> set (wallets_of st (to_chat s)) \<and>
              getWalletFromTransaction (trackedWallets (websocket st)) tx = w \<and>
              body s = TransactionNotification
                (bell @ '' *New Transaction*'' @ newline @ newline @ purse @ '' Wallet '' @
                 [CHR 0x60] @ shorten w @ [CHR 0x60] @ rest))"
proof (intro conjI impI ballI)
  assume short: "case wallet tx of Text w \<Rightarrow> utf16_length w \<le> 20 | _ \<Rightarrow> True"
  show w: "getWalletFromTransaction tracked tx = first_tracked"
    unfolding first_tracked_def by (rule getWalletFromTransaction_fallback[OF short])
  have "first_tracked \<noteq> []"
    unfolding first_tracked_def by (cases tracked) auto
  then have "js_or (Some first_tracked) ''Unknown'' = first_tracked"
    by (simp add: js_or_def)
  with formatTransactionMessage_shape[of cfg tracked tx] w
  show "\<exists>rest. formatTransactionMessage cfg tracked tx =
               bell @ '' *New Transaction*'' @ newline @ newline @ purse @ '' Wallet '' @
               [CHR 0x60] @ shorten first_tracked @ [CHR 0x60] @ rest"
    by simp
  have "only_valid cfg st" unfolding st_def by (rule only_valid_exec[OF only_valid_init])
  from notifyUsers_short_wallet[OF floor this short]
  show "notifyUsers cfg st tx = []" by simp
next
  fix s
  assume s: "s \<in> set (notifyUsers cfg st tx)"
  have valid: "only_valid cfg st" unfolding st_def by (rule only_valid_exec[OF only_valid_init])
  have "consistent st" unfolding st_def by (rule consistent_exec[OF consistent_init])
  then have d: "distinct (map fst (userWallets st))" by (simp add: consistent_def)
  from notifyUsers_own_wallet[OF floor valid s, of "trackedWallets (websocket st)"]
  obtain w rest where w: "wallet tx = Text w"
    and own: "getWalletFromTransaction (trackedWallets (websocket st)) tx = w"
    and shown: "body s = TransactionNotification
                (bell @ '' *New Transaction*'' @ newline @ newline @ purse @ '' Wallet '' @
                 [CHR 0x60] @ shorten w @ [CHR 0x60] @ rest)"
    by blast
  from s have "to_chat s \<in> set (map to_chat (notifyUsers cfg st tx))" by simp
  then have "to_chat s \<in> set (map fst (filter (\<lambda>(c, ws). w \<in> set ws) (userWallets st)))"
    unfolding notifyUsers_recipients_list using w by (simp split: if_splits)
  then have "w \<in> set (wallets_of st (to_chat s))"
    unfolding recipients_lookup[OF d] by simp
  with w own shown
  show "\<exists>w rest. wallet tx = Text w \<and> w \<in> set (wallets_of st (to_chat s)) \<and>
              getWalletFromTransaction (trackedWallets (websocket st)) tx = w \<and>
              body s = TransactionNotification
                (bell @ '' *New Transaction*'' @ newline @ newline @ purse @ '' Wallet '' @
                 [CHR 0x60] @ shorten w @ [CHR 0x60] @ rest)"
    by blast
qed

theorem notification_names_first_tracked_wallet_witness:
  fixes st
  defines "st \<equiv> exec sample_config sample_events (init_state 0)"
  shows "\<not> (\<exists>a. validateWalletAddress sample_config a \<and> utf16_length a \<le> 20) \<and>
   getWalletFromTransaction [wallet_A] short_wallet_buy = wallet_A \<and>
   getWalletFromTransaction [wallet_A] object_wallet_buy = wallet_A \<and>
   formatTransactionMessage sample_config [wallet_A] short_wallet_buy =
     transaction_text ''5t2UrDiT...'' (green_circle @ '' '') ''bought'' ''1.5 SOL'' ''$BONK''
       ''S1'' ''t'' \<and>
   notifyUsers sample_config st short_wallet_buy = [] \<and>
   notifyUsers sample_config st object_wallet_buy = [] \<and>
   notifyUsers sample_config st sample_buy =
     [\<lparr>to_chat = 2,
       body = TransactionNotification
                (transaction_text ''JDd3hy3g...'' (green_circle @ '' '') ''bought'' ''1.5 SOL''
                   ''$BONK'' ''S1'' ''t''),
       via = TrackedCaught\<rparr>] \<and>
   wallet sample_buy = Text wallet_B \<and>
   wallet_B \<in> set (wallets_of st 2) \<and>
   getWalletFromTransaction (trackedWallets (websocket st)) sample_buy = wallet_B"
proof -
  have f: "\<not> (\<exists>a. validateWalletAddress sample_config a \<and> utf16_length a \<le> 20)"
    using sample_validator_floor by fastforce
  have short: "case wallet short_wallet_buy of Text w \<Rightarrow> utf16_length w \<le> 20 | _ \<Rightarrow> True"
    by code_simp
  have object: "case wallet object_wallet_buy of Text w \<Rightarrow> utf16_length w \<le> 20 | _ \<Rightarrow> True"
    by (simp add: object_wallet_buy_def)
  have t: "formatTransactionMessage sample_config [wallet_A] short_wallet_buy =
     transaction_text ''5t2UrDiT...'' (green_circle @ '' '') ''bought'' ''1.5 SOL'' ''$BONK''
       ''S1'' ''t''"
    by code_simp
  have n: "notifyUsers sample_config st sample_buy =
     [\<lparr>to_chat = 2,
       body = TransactionNotification
                (transaction_text ''JDd3hy3g...'' (green_circle @ '' '') ''bought'' ''1.5 SOL''
                   ''$BONK'' ''S1'' ''t''),
       via = TrackedCaught\<rparr>]"
    unfolding st_def by code_simp
  have b: "wallet sample_buy = Text wallet_B"
    by (simp add: sample_buy_def)
  note inst = notification_names_first_tracked_wallet[OF sample_validator_floor,
      of sample_config _ "[wallet_A]" sample_events 0, folded st_def]
  from inst[of short_wallet_buy] short
  have 1: "getWalletFromTransaction [wallet_A] short_wallet_buy = wallet_A"
    "notifyUsers sample_config st short_wallet_buy = []"
    by (simp_all add: wallet_A_def)
  from inst[of object_wallet_buy] object
  have 2: "getWalletFromTransaction [wallet_A] object_wallet_buy = wallet_A"
    "notifyUsers sample_config st object_wallet_buy = []"
    by (simp_all add: wallet_A_def)
  from inst[of sample_buy] n b
  have 3: "wallet_B \<in> set (wallets_of st 2) \<and>
    getWalletFromTransaction (trackedWallets (websocket st)) sample_buy = wallet_B"
    by simp
  from f 1 2 3 t n b show ?thesis by simp
qed

end
